theory Spec2Isabelle
  imports Main "HOL-Library.Sublist"
begin


section \<open>The plugin manager dispatcher (pluginManager.tsx)\<close>

text \<open>
  The dispatcher is effectful TypeScript: it reads the store, calls methods of client
  and device objects, dispatches store actions, unloads modules and logs.  The model
  threads a world through every function: the store state and the chronological trace
  of the calls made to the collaborators.  A call that throws is a value \<open>Inl\<close> of the
  result, returned together with the world reached so far, so that every \<open>try\<close>/\<open>catch\<close>
  of the source is a branch of the model.
\<close>

subsection \<open>Data\<close>

text \<open>ActivatablePluginDetails: the fields the dispatcher reads.\<close>

record ActivatablePluginDetails =
  details_id :: string
  details_title :: string
  details_version :: string
  details_isBundled :: bool
  details_entry :: string

text \<open>
  PluginDefinition: the fields the dispatcher reads.  \<open>plugin_isDevicePlugin\<close> is the
  answer of \<open>isDevicePluginDefinition\<close> (utils/pluginUtils), a property of the definition.
\<close>

record PluginDefinition =
  plugin_id :: string
  plugin_title :: string
  plugin_version :: string
  plugin_details :: ActivatablePluginDetails
  plugin_isDevicePlugin :: bool

text \<open>
  Client: its id, the query fields read by the dispatcher, and the answers of its two
  capability queries \<open>supportsPlugin\<close> and \<open>isBackgroundPlugin\<close>.
\<close>

record Client =
  client_id :: string
  query_app :: string
  query_device_id :: string
  client_plugins :: "string list"
  client_backgroundPlugins :: "string list"

definition supportsPlugin :: "Client \<Rightarrow> string \<Rightarrow> bool" where
  "supportsPlugin c pluginId = (pluginId \<in> set (client_plugins c))"

definition isBackgroundPlugin :: "Client \<Rightarrow> string \<Rightarrow> bool" where
  "isBackgroundPlugin c pluginId = (pluginId \<in> set (client_backgroundPlugins c))"

text \<open>Device: its serial and the answer of \<open>supportsPlugin\<close>, by plugin id.\<close>

record Device =
  device_serial :: string
  device_plugins :: "string list"

definition deviceSupportsPlugin :: "Device \<Rightarrow> string \<Rightarrow> bool" where
  "deviceSupportsPlugin d pluginId = (pluginId \<in> set (device_plugins d))"

text \<open>The plugin commands of the queue; \<open>UNKNOWN_COMMAND\<close> stands for the \<open>default\<close> branch.\<close>

datatype PluginCommand =
    LOAD_PLUGIN ActivatablePluginDetails bool bool
  | UNINSTALL_PLUGIN PluginDefinition
  | UPDATE_PLUGIN PluginDefinition bool
  | SWITCH_PLUGIN PluginDefinition "string option"
  | UNKNOWN_COMMAND string

text \<open>
  The store actions the dispatcher creates.  A plugin key is kept as the three arguments
  of \<open>getPluginKey\<close>: client id, device serial, plugin id.
\<close>

datatype Action =
    PluginCommandsProcessed nat
  | PluginLoaded PluginDefinition
  | PluginUninstalled ActivatablePluginDetails
  | SetPluginEnabled string string
  | SetPluginDisabled string string
  | SetDevicePluginEnabled string
  | SetDevicePluginDisabled string
  | ClearMessageQueue string string string

text \<open>The calls to collaborators, as they appear in the trace.\<close>

datatype Event =
    StartPluginIfNeeded Client PluginDefinition bool
  | InitPlugin Client string
  | DeinitPlugin Client string
  | StopPluginIfNeeded Client string
  | LoadDevicePlugin Device PluginDefinition
  | UnloadDevicePlugin Device string
  | UnloadModule string
  | RequirePlugin ActivatablePluginDetails
  | Dispatch Action
  | ConsoleError string
  | ShowErrorNotification string

text \<open>
  What can be thrown: a collaborator call that fails (the failed call is kept), and the
  \<open>TypeError\<close> JavaScript raises on calling a property that is not a function.
\<close>

datatype Exn = Thrown Event | TypeError

text \<open>
  The store state: \<open>connections.clients\<close>, \<open>connections.devices\<close>,
  \<open>connections.selectedAppId\<close>, \<open>connections.enabledPlugins\<close>,
  \<open>connections.enabledDevicePlugins\<close>, \<open>plugins.clientPlugins\<close>,
  \<open>plugins.devicePlugins\<close> and \<open>pluginManager.pluginCommandsQueue\<close>.
\<close>

record State =
  clients :: "Client list"
  devices :: "Device list"
  selectedAppId :: "string option"
  enabledPlugins :: "string \<rightharpoonup> string list"
  enabledDevicePlugins :: "string set"
  clientPlugins :: "string \<rightharpoonup> PluginDefinition"
  devicePlugins :: "string \<rightharpoonup> PluginDefinition"
  pluginCommandsQueue :: "PluginCommand list"

record World =
  store :: State
  trace :: "Event list"

text \<open>
  What the dispatcher imports from modules whose source is not at hand is a
  parameter: the constant \<open>defaultEnabledBackgroundPlugins\<close>, the \<open>app\<close> component of
  \<open>deconstructClientId\<close>, the definition \<open>requirePlugin\<close> resolves to, and which
  collaborator call throws (given the trace so far and the call).
\<close>

record Env =
  defaultEnabledBackgroundPlugins :: "string list"
  deconstructClientId_app :: "string \<Rightarrow> string"
  requirePlugin :: "ActivatablePluginDetails \<Rightarrow> PluginDefinition"
  throws :: "Event list \<Rightarrow> Event \<Rightarrow> bool"

subsection \<open>The reducers\<close>

text \<open>
  Modelled from the spec: the reducers behind \<open>store.dispatch\<close> (reducers/connections,
  reducers/plugins, reducers/pluginManager) are not among the sources.  Following the
  spec, \<open>setPluginEnabled\<close> marks the plugin enabled for the app and \<open>setPluginDisabled\<close>
  marks it disabled; \<open>setDevicePluginEnabled\<close>/\<open>Disabled\<close> change the global set;
  \<open>pluginLoaded\<close> registers the definition as current for its id; \<open>pluginUninstalled\<close>
  removes the registration; \<open>pluginCommandsProcessed\<close> removes that many commands from
  the head of the queue; the message queue cleared by \<open>clearMessageQueue\<close> is not part
  of the modelled state.
\<close>

fun reducer :: "Action \<Rightarrow> State \<Rightarrow> State" where
  "reducer (PluginCommandsProcessed n) s =
     s\<lparr>pluginCommandsQueue := drop n (pluginCommandsQueue s)\<rparr>"
| "reducer (PluginLoaded p) s =
     (if plugin_isDevicePlugin p
      then s\<lparr>devicePlugins := (devicePlugins s)(plugin_id p \<mapsto> p)\<rparr>
      else s\<lparr>clientPlugins := (clientPlugins s)(plugin_id p \<mapsto> p)\<rparr>)"
| "reducer (PluginUninstalled d) s =
     s\<lparr>clientPlugins := (clientPlugins s)(details_id d := None),
       devicePlugins := (devicePlugins s)(details_id d := None)\<rparr>"
| "reducer (SetPluginEnabled pluginId app) s =
     s\<lparr>enabledPlugins := (enabledPlugins s)(app \<mapsto>
        (case enabledPlugins s app of
           None \<Rightarrow> [pluginId]
         | Some ps \<Rightarrow> if pluginId \<in> set ps then ps else ps @ [pluginId]))\<rparr>"
| "reducer (SetPluginDisabled pluginId app) s =
     (case enabledPlugins s app of
        None \<Rightarrow> s
      | Some ps \<Rightarrow> s\<lparr>enabledPlugins := (enabledPlugins s)(app \<mapsto> removeAll pluginId ps)\<rparr>)"
| "reducer (SetDevicePluginEnabled pluginId) s =
     s\<lparr>enabledDevicePlugins := insert pluginId (enabledDevicePlugins s)\<rparr>"
| "reducer (SetDevicePluginDisabled pluginId) s =
     s\<lparr>enabledDevicePlugins := enabledDevicePlugins s - {pluginId}\<rparr>"
| "reducer (ClearMessageQueue clientId serial pluginId) s = s"

subsection \<open>Effects\<close>

type_synonym 'a Prog = "World \<Rightarrow> (Exn + 'a) \<times> World"

definition ret :: "'a \<Rightarrow> 'a Prog" where
  "ret v w = (Inr v, w)"

text \<open>Sequencing: a throw of the first part skips the second.\<close>

definition andThen :: "'a Prog \<Rightarrow> ('a \<Rightarrow> 'b Prog) \<Rightarrow> 'b Prog" where
  "andThen m k w = (case m w of (Inl x, w') \<Rightarrow> (Inl x, w') | (Inr v, w') \<Rightarrow> k v w')"

text \<open>\<open>try { m } catch (err) { h err }\<close>.\<close>

definition tryCatch :: "'a Prog \<Rightarrow> (Exn \<Rightarrow> 'a Prog) \<Rightarrow> 'a Prog" where
  "tryCatch m h w = (case m w of (Inl x, w') \<Rightarrow> h x w' | (Inr v, w') \<Rightarrow> (Inr v, w'))"

text \<open>
  A call to a collaborator: it is recorded in the trace, and it throws when the
  environment says so.
\<close>

definition call :: "Env \<Rightarrow> Event \<Rightarrow> unit Prog" where
  "call E e w =
     (if throws E (trace w) e then Inl (Thrown e) else Inr (), w\<lparr>trace := trace w @ [e]\<rparr>)"

text \<open>
  \<open>console.error\<close> and \<open>showErrorNotification\<close> are sinks: the spec gives them no
  failure mode, and they are recorded without consulting \<open>throws\<close>.
\<close>

definition sink :: "Event \<Rightarrow> unit Prog" where
  "sink e w = (Inr (), w\<lparr>trace := trace w @ [e]\<rparr>)"

text \<open>\<open>store.dispatch(action)\<close>: recorded, and reduced into the store unless it throws.\<close>

definition dispatch :: "Env \<Rightarrow> Action \<Rightarrow> unit Prog" where
  "dispatch E a w =
     (if throws E (trace w) (Dispatch a)
      then (Inl (Thrown (Dispatch a)), w\<lparr>trace := trace w @ [Dispatch a]\<rparr>)
      else (Inr (), w\<lparr>store := reducer a (store w), trace := trace w @ [Dispatch a]\<rparr>))"

text \<open>A throw, and a value or a throw computed without touching the world.\<close>

definition throw :: "Exn \<Rightarrow> 'a Prog" where
  "throw x w = (Inl x, w)"

definition fromResult :: "Exn + 'a \<Rightarrow> 'a Prog" where
  "fromResult r w = (r, w)"

text \<open>\<open>xs.forEach(f)\<close>: a throw of the callback ends the iteration.\<close>

fun forEach :: "('a \<Rightarrow> unit Prog) \<Rightarrow> 'a list \<Rightarrow> unit Prog" where
  "forEach f [] w = (Inr (), w)"
| "forEach f (x # xs) w =
     (case f x w of (Inl e, w') \<Rightarrow> (Inl e, w') | (Inr _, w') \<Rightarrow> forEach f xs w')"

subsection \<open>The start and stop primitives\<close>

definition startPlugin :: "Env \<Rightarrow> Client \<Rightarrow> PluginDefinition \<Rightarrow> bool \<Rightarrow> unit Prog" where
  "startPlugin E client plugin forceInitBackgroundPlugin =
     andThen (call E (StartPluginIfNeeded client plugin True))
       (\<lambda>_. if (forceInitBackgroundPlugin
                 \<or> plugin_id plugin \<notin> set (defaultEnabledBackgroundPlugins E))
               \<and> isBackgroundPlugin client (plugin_id plugin)
            then call E (InitPlugin client (plugin_id plugin))
            else ret ())"

definition stopPlugin :: "Env \<Rightarrow> Client \<Rightarrow> string \<Rightarrow> bool \<Rightarrow> bool Prog" where
  "stopPlugin E client pluginId forceInitBackgroundPlugin =
     andThen
       (if (forceInitBackgroundPlugin \<or> pluginId \<notin> set (defaultEnabledBackgroundPlugins E))
           \<and> isBackgroundPlugin client pluginId
        then call E (DeinitPlugin client pluginId)
        else ret ())
       (\<lambda>_. andThen (call E (StopPluginIfNeeded client pluginId)) (\<lambda>_. ret True))"

definition unloadPluginModule :: "Env \<Rightarrow> ActivatablePluginDetails \<Rightarrow> unit Prog" where
  "unloadPluginModule E plugin =
     (if details_isBundled plugin then ret ()
      else call E (UnloadModule (details_entry plugin)))"

subsection \<open>Queries on the store\<close>

text \<open>JavaScript truthiness of a string: the empty string is falsy.\<close>

definition truthy :: "string \<Rightarrow> bool" where
  "truthy s = (s \<noteq> [])"

definition getSelectedAppName :: "Env \<Rightarrow> State \<Rightarrow> string option" where
  "getSelectedAppName E s =
     (case selectedAppId s of
        None \<Rightarrow> None
      | Some sid \<Rightarrow> if truthy sid then Some (deconstructClientId_app E sid) else None)"

text \<open>
  Modelled from the spec: \<open>getAllClients\<close> and \<open>getClientsByAppName\<close>
  (reducers/connections) are not among the sources; they give every connected client,
  and the clients matching the app.
\<close>

definition getAllClients :: "State \<Rightarrow> Client list" where
  "getAllClients s = clients s"

definition getClientsByAppName :: "Client list \<Rightarrow> string \<Rightarrow> Client list" where
  "getClientsByAppName cs app = filter (\<lambda>c. query_app c = app) cs"

text \<open>
  The registry \<open>enabledPlugins\<close> is a plain object indexed by app name, so a lookup
  also finds the properties every object inherits from \<open>Object.prototype\<close>.
\<close>

definition objectPrototypeProperties :: "string list" where
  "objectPrototypeProperties =
     [''constructor'', ''hasOwnProperty'', ''isPrototypeOf'', ''propertyIsEnumerable'',
      ''toLocaleString'', ''toString'', ''valueOf'', ''__proto__'', ''__defineGetter__'',
      ''__defineSetter__'', ''__lookupGetter__'', ''__lookupSetter__'']"

text \<open>
  \<open>enabledPlugins[app]?.includes(pluginId)\<close>.  An entry of the registry answers with
  \<open>includes\<close>.  Without an entry the lookup gives \<open>undefined\<close> and \<open>?.\<close> makes the
  whole expression a falsy \<open>undefined\<close>, unless the name is an inherited property:
  then the lookup gives the inherited function or object, which is not nullish and has
  no \<open>includes\<close>, and the call throws a \<open>TypeError\<close>.
\<close>

definition enabledFor :: "State \<Rightarrow> string \<Rightarrow> string \<Rightarrow> Exn + bool" where
  "enabledFor s app pluginId =
     (case enabledPlugins s app of
        Some ps \<Rightarrow> Inr (pluginId \<in> set ps)
      | None \<Rightarrow> if app \<in> set objectPrototypeProperties then Inl TypeError else Inr False)"

subsection \<open>Update\<close>

text \<open>\<open>xs.filter(f)\<close> with a callback that may throw: the first throw ends the filter.\<close>

fun filterE :: "('a \<Rightarrow> Exn + bool) \<Rightarrow> 'a list \<Rightarrow> Exn + 'a list" where
  "filterE f [] = Inr []"
| "filterE f (x # xs) =
     (case f x of
        Inl e \<Rightarrow> Inl e
      | Inr b \<Rightarrow>
          (case filterE f xs of
             Inl e \<Rightarrow> Inl e
           | Inr ys \<Rightarrow> Inr (if b then x # ys else ys)))"

text \<open>
  The filter of \<open>updateClientPlugin\<close>: \<open>&&\<close> reads the registry only for a client
  that supports the plugin.
\<close>

definition clientsWithEnabledPlugin ::
  "State \<Rightarrow> Client list \<Rightarrow> string \<Rightarrow> Exn + Client list" where
  "clientsWithEnabledPlugin s cs pluginId =
     filterE (\<lambda>c. if supportsPlugin c pluginId
                   then enabledFor s (query_app c) pluginId
                   else Inr False) cs"

definition updateClientPlugin :: "Env \<Rightarrow> PluginDefinition \<Rightarrow> bool \<Rightarrow> unit Prog" where
  "updateClientPlugin E plugin enable w =
     (let cs = getAllClients (store w) in
      andThen
        (if enable
         then (case getSelectedAppName E (store w) of
                 None \<Rightarrow> ret ()
               | Some selectedApp \<Rightarrow>
                   if truthy selectedApp
                   then dispatch E (SetPluginEnabled (plugin_id plugin) selectedApp)
                   else ret ())
         else ret ())
        (\<lambda>_ w1.
           andThen (fromResult (clientsWithEnabledPlugin (store w1) cs (plugin_id plugin)))
             (\<lambda>enabledClients.
                (let previousVersion = clientPlugins (store w1) (plugin_id plugin)
                 in andThen
                      (forEach (\<lambda>client. andThen (stopPlugin E client (plugin_id plugin) False)
                                            (\<lambda>_. ret ())) enabledClients)
                      (\<lambda>_. andThen
                         (forEach (\<lambda>client. startPlugin E client plugin True) enabledClients)
                         (\<lambda>_. andThen (dispatch E (PluginLoaded plugin))
                            (\<lambda>_. case previousVersion of
                                    None \<Rightarrow> ret ()
                                  | Some prev \<Rightarrow> unloadPluginModule E (plugin_details prev))))))
             w1)
        w)"

definition updateDevicePlugin :: "Env \<Rightarrow> PluginDefinition \<Rightarrow> bool \<Rightarrow> unit Prog" where
  "updateDevicePlugin E plugin enable =
     andThen
       (if enable then dispatch E (SetDevicePluginEnabled (plugin_id plugin)) else ret ())
       (\<lambda>_ w1.
          (let devicesWithEnabledPlugin =
                 filter (\<lambda>d. deviceSupportsPlugin d (plugin_id plugin)) (devices (store w1))
           in andThen
                (forEach (\<lambda>d. call E (UnloadDevicePlugin d (plugin_id plugin)))
                   devicesWithEnabledPlugin)
                (\<lambda>_ w2.
                   (let previousVersion = devicePlugins (store w2) (plugin_id plugin)
                    in andThen
                         (case previousVersion of
                            None \<Rightarrow> ret ()
                          | Some prev \<Rightarrow> unloadPluginModule E (plugin_details prev))
                         (\<lambda>_. andThen (dispatch E (PluginLoaded plugin))
                            (\<lambda>_. forEach (\<lambda>d. call E (LoadDevicePlugin d plugin))
                                   devicesWithEnabledPlugin))
                         w2))
                w1))"

definition updatePlugin :: "Env \<Rightarrow> PluginDefinition \<Rightarrow> bool \<Rightarrow> unit Prog" where
  "updatePlugin E plugin enablePlugin =
     (if plugin_isDevicePlugin plugin
      then updateDevicePlugin E plugin enablePlugin
      else updateClientPlugin E plugin enablePlugin)"

subsection \<open>Switch\<close>

definition switchClientPlugin ::
  "Env \<Rightarrow> PluginDefinition \<Rightarrow> string option \<Rightarrow> unit Prog" where
  "switchClientPlugin E plugin selectedApp w =
     (case (case selectedApp of Some a \<Rightarrow> Some a | None \<Rightarrow> getSelectedAppName E (store w)) of
        None \<Rightarrow> ret () w
      | Some app \<Rightarrow>
          if \<not> truthy app then ret () w
          else
            (let connections = store w;
                 cs = getClientsByAppName (clients connections) app
             in andThen (fromResult (enabledFor connections app (plugin_id plugin)))
                  (\<lambda>enabled.
                     if enabled
                     then andThen
                            (forEach
                               (\<lambda>client. andThen (stopPlugin E client (plugin_id plugin) False)
                                  (\<lambda>_. dispatch E
                                         (ClearMessageQueue (client_id client)
                                            (query_device_id client) (plugin_id plugin))))
                               cs)
                            (\<lambda>_. dispatch E (SetPluginDisabled (plugin_id plugin) app))
                     else andThen
                            (forEach (\<lambda>client. startPlugin E client plugin False) cs)
                            (\<lambda>_. dispatch E (SetPluginEnabled (plugin_id plugin) app)))
                  w))"

definition switchDevicePlugin :: "Env \<Rightarrow> PluginDefinition \<Rightarrow> unit Prog" where
  "switchDevicePlugin E plugin w =
     (let connections = store w;
          devicesWithPlugin =
            filter (\<lambda>d. deviceSupportsPlugin d (plugin_id plugin)) (devices connections)
      in if plugin_id plugin \<in> enabledDevicePlugins connections
         then andThen
                (forEach (\<lambda>d. call E (UnloadDevicePlugin d (plugin_id plugin)))
                   devicesWithPlugin)
                (\<lambda>_. dispatch E (SetDevicePluginDisabled (plugin_id plugin))) w
         else andThen
                (forEach (\<lambda>d. call E (LoadDevicePlugin d plugin)) devicesWithPlugin)
                (\<lambda>_. dispatch E (SetDevicePluginEnabled (plugin_id plugin))) w)"

definition switchPlugin :: "Env \<Rightarrow> PluginDefinition \<Rightarrow> string option \<Rightarrow> unit Prog" where
  "switchPlugin E plugin selectedApp =
     (if plugin_isDevicePlugin plugin
      then switchDevicePlugin E plugin
      else switchClientPlugin E plugin selectedApp)"

subsection \<open>Load and uninstall\<close>

definition quoted :: "string \<Rightarrow> string" where
  "quoted s = [CHR 0x22] @ s @ [CHR 0x22]"

definition loadPlugin :: "Env \<Rightarrow> ActivatablePluginDetails \<Rightarrow> bool \<Rightarrow> bool \<Rightarrow> unit Prog" where
  "loadPlugin E plugin enable notifyIfFailed =
     tryCatch
       (andThen (call E (RequirePlugin plugin))
          (\<lambda>_. updatePlugin E (requirePlugin E plugin) enable))
       (\<lambda>err. andThen
          (sink (ConsoleError (''Failed to load plugin '' @ details_title plugin
                                 @ '' v'' @ details_version plugin)))
          (\<lambda>_. if notifyIfFailed
                then sink (ShowErrorNotification
                             (''Failed to load plugin '' @ quoted (details_title plugin)
                                @ '' v'' @ details_version plugin))
                else ret ()))"

definition uninstallPlugin :: "Env \<Rightarrow> PluginDefinition \<Rightarrow> unit Prog" where
  "uninstallPlugin E plugin =
     tryCatch
       (\<lambda>w. andThen
          (forEach (\<lambda>client. andThen (stopPlugin E client (plugin_id plugin) False)
                                (\<lambda>_. ret ()))
             (clients (store w)))
          (\<lambda>_. andThen
             (if \<not> details_isBundled (plugin_details plugin)
              then unloadPluginModule E (plugin_details plugin)
              else ret ())
             (\<lambda>_. dispatch E (PluginUninstalled (plugin_details plugin))))
          w)
       (\<lambda>err. andThen
          (sink (ConsoleError (''Failed to uninstall plugin '' @ plugin_title plugin
                                 @ '' v'' @ plugin_version plugin)))
          (\<lambda>_. sink (ShowErrorNotification
                        (''Failed to uninstall plugin '' @ quoted (plugin_title plugin)
                           @ '' v'' @ plugin_version plugin))))"

subsection \<open>The command queue\<close>

fun handleCommand :: "Env \<Rightarrow> PluginCommand \<Rightarrow> unit Prog" where
  "handleCommand E (LOAD_PLUGIN plugin enable notifyIfFailed) =
     loadPlugin E plugin enable notifyIfFailed"
| "handleCommand E (UNINSTALL_PLUGIN plugin) = uninstallPlugin E plugin"
| "handleCommand E (UPDATE_PLUGIN plugin enablePlugin) = updatePlugin E plugin enablePlugin"
| "handleCommand E (SWITCH_PLUGIN plugin selectedApp) = switchPlugin E plugin selectedApp"
| "handleCommand E (UNKNOWN_COMMAND t) = sink (ConsoleError ''Unexpected plugin command'')"

text \<open>The body of the loop: the \<open>switch\<close> inside \<open>try\<close>, and the \<open>catch\<close> that only logs.\<close>

definition processCommand :: "Env \<Rightarrow> PluginCommand \<Rightarrow> unit Prog" where
  "processCommand E command =
     tryCatch (handleCommand E command)
       (\<lambda>e. sink (ConsoleError ''Failed to process command''))"

definition processPluginCommandsQueue :: "Env \<Rightarrow> PluginCommand list \<Rightarrow> unit Prog" where
  "processPluginCommandsQueue E queue =
     andThen (forEach (processCommand E) queue)
       (\<lambda>_. dispatch E (PluginCommandsProcessed (length queue)))"

section \<open>Call sequences\<close>

text \<open>
  The statements about the dispatcher are statements about its trace.  The definitions
  of this section describe a function of the dispatcher by the list of calls it makes
  when no call throws (its plan), say what remains of a plan when calls throw, and name
  the failure of a registry lookup that ends a function after its plan.
\<close>

text \<open>
  The condition under which \<open>startPlugin\<close> sends \<open>init\<close> and \<open>stopPlugin\<close> sends
  \<open>deinit\<close>.
\<close>

definition backgroundSignal :: "Env \<Rightarrow> Client \<Rightarrow> string \<Rightarrow> bool \<Rightarrow> bool" where
  "backgroundSignal E client pluginId force =
     ((force \<or> pluginId \<notin> set (defaultEnabledBackgroundPlugins E))
      \<and> isBackgroundPlugin client pluginId)"

text \<open>
  Running a plan: each call is made in turn, a dispatch is reduced into the store, and
  the first call that throws ends the run.
\<close>

fun perform :: "Env \<Rightarrow> Event \<Rightarrow> unit Prog" where
  "perform E (Dispatch a) = dispatch E a"
| "perform E e = call E e"

definition exec :: "Env \<Rightarrow> Event list \<Rightarrow> unit Prog" where
  "exec E es = forEach (perform E) es"

text \<open>Running a plan and then, when every call returned, throwing the failure if any.\<close>

definition execThen :: "Env \<Rightarrow> Event list \<Rightarrow> Exn option \<Rightarrow> unit Prog" where
  "execThen E es failure =
     andThen (exec E es) (\<lambda>_. case failure of None \<Rightarrow> ret () | Some x \<Rightarrow> throw x)"

text \<open>
  \<open>emitted E tr es\<close> is the part of the plan \<open>es\<close> that is made when the trace so far is
  \<open>tr\<close>: the calls up to and including the first one that throws.  \<open>completes E tr es\<close>
  says that none throws, and \<open>noThrow E\<close> that no call ever throws.
\<close>

fun emitted :: "Env \<Rightarrow> Event list \<Rightarrow> Event list \<Rightarrow> Event list" where
  "emitted E tr [] = []"
| "emitted E tr (e # es) = e # (if throws E tr e then [] else emitted E (tr @ [e]) es)"

fun completes :: "Env \<Rightarrow> Event list \<Rightarrow> Event list \<Rightarrow> bool" where
  "completes E tr [] = True"
| "completes E tr (e # es) = (\<not> throws E tr e \<and> completes E (tr @ [e]) es)"

definition noThrow :: "Env \<Rightarrow> bool" where
  "noThrow E = (\<forall>tr e. \<not> throws E tr e)"

text \<open>The calls of \<open>startPlugin\<close>, \<open>stopPlugin\<close> and \<open>unloadPluginModule\<close>.\<close>

definition startEvents :: "Env \<Rightarrow> Client \<Rightarrow> PluginDefinition \<Rightarrow> bool \<Rightarrow> Event list" where
  "startEvents E c p force =
     StartPluginIfNeeded c p True
       # (if backgroundSignal E c (plugin_id p) force then [InitPlugin c (plugin_id p)] else [])"

definition stopEvents :: "Env \<Rightarrow> Client \<Rightarrow> string \<Rightarrow> bool \<Rightarrow> Event list" where
  "stopEvents E c pid force =
     (if backgroundSignal E c pid force then [DeinitPlugin c pid] else [])
       @ [StopPluginIfNeeded c pid]"

definition unloadEvents :: "ActivatablePluginDetails \<Rightarrow> Event list" where
  "unloadEvents d = (if details_isBundled d then [] else [UnloadModule (details_entry d)])"

definition previousUnloadEvents :: "PluginDefinition option \<Rightarrow> Event list" where
  "previousUnloadEvents previousVersion =
     (case previousVersion of None \<Rightarrow> [] | Some prev \<Rightarrow> unloadEvents (plugin_details prev))"

text \<open>
  The calls of \<open>updateClientPlugin\<close>.  \<open>enableTarget\<close> is the app for which
  \<open>setPluginEnabled\<close> is dispatched, if any, and \<open>afterEnable\<close> the store after that
  dispatch; \<open>passClients\<close> is the result of the filter run on that store: the clients
  the stop pass and the start pass run over, or the throw of a registry lookup.  When
  the filter throws, the function ends there: its plan is the dispatch alone.
\<close>

definition enableTarget :: "Env \<Rightarrow> bool \<Rightarrow> State \<Rightarrow> string option" where
  "enableTarget E enable s =
     (if enable
      then (case getSelectedAppName E s of
              None \<Rightarrow> None
            | Some app \<Rightarrow> if truthy app then Some app else None)
      else None)"

definition enableEvents :: "Env \<Rightarrow> PluginDefinition \<Rightarrow> bool \<Rightarrow> State \<Rightarrow> Event list" where
  "enableEvents E plugin enable s =
     (case enableTarget E enable s of
        None \<Rightarrow> []
      | Some app \<Rightarrow> [Dispatch (SetPluginEnabled (plugin_id plugin) app)])"

definition afterEnable :: "Env \<Rightarrow> PluginDefinition \<Rightarrow> bool \<Rightarrow> State \<Rightarrow> State" where
  "afterEnable E plugin enable s =
     (case enableTarget E enable s of
        None \<Rightarrow> s
      | Some app \<Rightarrow> reducer (SetPluginEnabled (plugin_id plugin) app) s)"

definition passClients ::
  "Env \<Rightarrow> PluginDefinition \<Rightarrow> bool \<Rightarrow> State \<Rightarrow> Exn + Client list" where
  "passClients E plugin enable s =
     clientsWithEnabledPlugin (afterEnable E plugin enable s) (clients s) (plugin_id plugin)"

definition swapEvents :: "Env \<Rightarrow> PluginDefinition \<Rightarrow> Client list \<Rightarrow> State \<Rightarrow> Event list" where
  "swapEvents E plugin cs s =
     concat (map (\<lambda>c. stopEvents E c (plugin_id plugin) False) cs)
       @ concat (map (\<lambda>c. startEvents E c plugin True) cs)
       @ [Dispatch (PluginLoaded plugin)]
       @ previousUnloadEvents (clientPlugins s (plugin_id plugin))"

definition updateClientPluginPlan :: "Env \<Rightarrow> PluginDefinition \<Rightarrow> bool \<Rightarrow> State \<Rightarrow> Event list" where
  "updateClientPluginPlan E plugin enable s =
     enableEvents E plugin enable s
       @ (case passClients E plugin enable s of
            Inl x \<Rightarrow> []
          | Inr cs \<Rightarrow> swapEvents E plugin cs s)"

definition updateClientPluginFailure ::
  "Env \<Rightarrow> PluginDefinition \<Rightarrow> bool \<Rightarrow> State \<Rightarrow> Exn option" where
  "updateClientPluginFailure E plugin enable s =
     (case passClients E plugin enable s of Inl x \<Rightarrow> Some x | Inr cs \<Rightarrow> None)"

text \<open>The calls that change the store.\<close>

fun isDispatch :: "Event \<Rightarrow> bool" where
  "isDispatch (Dispatch a) = True"
| "isDispatch e = False"

text \<open>The calls of \<open>updateDevicePlugin\<close>.\<close>

definition updateDevicePluginPlan :: "PluginDefinition \<Rightarrow> bool \<Rightarrow> State \<Rightarrow> Event list" where
  "updateDevicePluginPlan plugin enable s =
     (let ds = filter (\<lambda>d. deviceSupportsPlugin d (plugin_id plugin)) (devices s)
      in (if enable then [Dispatch (SetDevicePluginEnabled (plugin_id plugin))] else [])
           @ map (\<lambda>d. UnloadDevicePlugin d (plugin_id plugin)) ds
           @ previousUnloadEvents (devicePlugins s (plugin_id plugin))
           @ [Dispatch (PluginLoaded plugin)]
           @ map (\<lambda>d. LoadDevicePlugin d plugin) ds)"

text \<open>
  The app \<open>switchClientPlugin\<close> works on: \<open>selectedApp ?? getSelectedAppName(store)\<close>,
  and none when that is falsy.  An explicit empty string is not replaced by the selected
  app: it resolves to none.
\<close>

definition resolveApp :: "Env \<Rightarrow> string option \<Rightarrow> State \<Rightarrow> string option" where
  "resolveApp E selectedApp s =
     (case (case selectedApp of Some a \<Rightarrow> Some a | None \<Rightarrow> getSelectedAppName E s) of
        None \<Rightarrow> None
      | Some app \<Rightarrow> if truthy app then Some app else None)"

text \<open>
  The calls of \<open>switchClientPlugin\<close> for a resolved app and an answer of the registry,
  its plan (empty when the registry lookup throws), and the calls of
  \<open>switchDevicePlugin\<close>.
\<close>

definition toggleEvents ::
  "Env \<Rightarrow> PluginDefinition \<Rightarrow> string \<Rightarrow> bool \<Rightarrow> Client list \<Rightarrow> Event list" where
  "toggleEvents E plugin app enabled cs =
     (if enabled
      then concat (map (\<lambda>c. stopEvents E c (plugin_id plugin) False
                            @ [Dispatch (ClearMessageQueue (client_id c) (query_device_id c)
                                          (plugin_id plugin))]) cs)
             @ [Dispatch (SetPluginDisabled (plugin_id plugin) app)]
      else concat (map (\<lambda>c. startEvents E c plugin False) cs)
             @ [Dispatch (SetPluginEnabled (plugin_id plugin) app)])"

definition switchClientPluginPlan :: "Env \<Rightarrow> PluginDefinition \<Rightarrow> string \<Rightarrow> State \<Rightarrow> Event list" where
  "switchClientPluginPlan E plugin app s =
     (case enabledFor s app (plugin_id plugin) of
        Inl x \<Rightarrow> []
      | Inr enabled \<Rightarrow>
          toggleEvents E plugin app enabled (getClientsByAppName (clients s) app))"

definition switchClientPluginFailure :: "PluginDefinition \<Rightarrow> string \<Rightarrow> State \<Rightarrow> Exn option" where
  "switchClientPluginFailure plugin app s =
     (case enabledFor s app (plugin_id plugin) of Inl x \<Rightarrow> Some x | Inr enabled \<Rightarrow> None)"

definition switchDevicePluginPlan :: "PluginDefinition \<Rightarrow> State \<Rightarrow> Event list" where
  "switchDevicePluginPlan plugin s =
     (let ds = filter (\<lambda>d. deviceSupportsPlugin d (plugin_id plugin)) (devices s)
      in if plugin_id plugin \<in> enabledDevicePlugins s
         then map (\<lambda>d. UnloadDevicePlugin d (plugin_id plugin)) ds
                @ [Dispatch (SetDevicePluginDisabled (plugin_id plugin))]
         else map (\<lambda>d. LoadDevicePlugin d plugin) ds
                @ [Dispatch (SetDevicePluginEnabled (plugin_id plugin))])"

text \<open>
  The calls of the \<open>try\<close> blocks of \<open>uninstallPlugin\<close> and \<open>loadPlugin\<close>, and the calls
  of their \<open>catch\<close> blocks.
\<close>

definition uninstallPluginPlan :: "Env \<Rightarrow> PluginDefinition \<Rightarrow> State \<Rightarrow> Event list" where
  "uninstallPluginPlan E plugin s =
     concat (map (\<lambda>c. stopEvents E c (plugin_id plugin) False) (clients s))
       @ unloadEvents (plugin_details plugin)
       @ [Dispatch (PluginUninstalled (plugin_details plugin))]"

definition updatePluginPlan :: "Env \<Rightarrow> PluginDefinition \<Rightarrow> bool \<Rightarrow> State \<Rightarrow> Event list" where
  "updatePluginPlan E plugin enable s =
     (if plugin_isDevicePlugin plugin
      then updateDevicePluginPlan plugin enable s
      else updateClientPluginPlan E plugin enable s)"

definition updatePluginFailure :: "Env \<Rightarrow> PluginDefinition \<Rightarrow> bool \<Rightarrow> State \<Rightarrow> Exn option" where
  "updatePluginFailure E plugin enable s =
     (if plugin_isDevicePlugin plugin then None
      else updateClientPluginFailure E plugin enable s)"

definition loadPluginPlan :: "Env \<Rightarrow> ActivatablePluginDetails \<Rightarrow> bool \<Rightarrow> State \<Rightarrow> Event list" where
  "loadPluginPlan E plugin enable s =
     RequirePlugin plugin # updatePluginPlan E (requirePlugin E plugin) enable s"

definition loadFailureEvents :: "ActivatablePluginDetails \<Rightarrow> bool \<Rightarrow> Event list" where
  "loadFailureEvents plugin notifyIfFailed =
     ConsoleError (''Failed to load plugin '' @ details_title plugin
                     @ '' v'' @ details_version plugin)
       # (if notifyIfFailed
          then [ShowErrorNotification (''Failed to load plugin '' @ quoted (details_title plugin)
                                         @ '' v'' @ details_version plugin)]
          else [])"

definition uninstallFailureEvents :: "PluginDefinition \<Rightarrow> Event list" where
  "uninstallFailureEvents plugin =
     [ConsoleError (''Failed to uninstall plugin '' @ plugin_title plugin
                      @ '' v'' @ plugin_version plugin),
      ShowErrorNotification (''Failed to uninstall plugin '' @ quoted (plugin_title plugin)
                               @ '' v'' @ plugin_version plugin)]"

text \<open>The \<open>catch\<close> blocks of \<open>loadPlugin\<close> and \<open>uninstallPlugin\<close> as programs.\<close>

definition loadCatch :: "ActivatablePluginDetails \<Rightarrow> bool \<Rightarrow> unit Prog" where
  "loadCatch plugin notifyIfFailed =
     andThen
       (sink (ConsoleError (''Failed to load plugin '' @ details_title plugin
                              @ '' v'' @ details_version plugin)))
       (\<lambda>_. if notifyIfFailed
             then sink (ShowErrorNotification
                          (''Failed to load plugin '' @ quoted (details_title plugin)
                             @ '' v'' @ details_version plugin))
             else ret ())"

definition uninstallCatch :: "PluginDefinition \<Rightarrow> unit Prog" where
  "uninstallCatch plugin =
     andThen
       (sink (ConsoleError (''Failed to uninstall plugin '' @ plugin_title plugin
                              @ '' v'' @ plugin_version plugin)))
       (\<lambda>_. sink (ShowErrorNotification
                     (''Failed to uninstall plugin '' @ quoted (plugin_title plugin)
                        @ '' v'' @ plugin_version plugin)))"

text \<open>The calls a program adds to the trace.\<close>

definition emittedBy :: "'a Prog \<Rightarrow> World \<Rightarrow> Event list" where
  "emittedBy m w = drop (length (trace w)) (trace (snd (m w)))"

text \<open>Kinds of calls.\<close>

fun isStopCall :: "Event \<Rightarrow> bool" where
  "isStopCall (DeinitPlugin c p) = True"
| "isStopCall (StopPluginIfNeeded c p) = True"
| "isStopCall e = False"

fun isStartCall :: "Event \<Rightarrow> bool" where
  "isStartCall (StartPluginIfNeeded c p b) = True"
| "isStartCall (InitPlugin c p) = True"
| "isStartCall e = False"

fun isLoadCall :: "Event \<Rightarrow> bool" where
  "isLoadCall (LoadDevicePlugin d p) = True"
| "isLoadCall e = False"

fun isUnloadCall :: "Event \<Rightarrow> bool" where
  "isUnloadCall (UnloadDevicePlugin d p) = True"
| "isUnloadCall e = False"

text \<open>The calls that swap the version: the registration and the module unload.\<close>

fun isSwapCall :: "Event \<Rightarrow> bool" where
  "isSwapCall (Dispatch (PluginLoaded p)) = True"
| "isSwapCall (UnloadModule x) = True"
| "isSwapCall e = False"

fun isProcessed :: "Event \<Rightarrow> bool" where
  "isProcessed (Dispatch (PluginCommandsProcessed n)) = True"
| "isProcessed e = False"

text \<open>A program that only extends the trace and never dispatches \<open>pluginCommandsProcessed\<close>.\<close>

definition quietly :: "'a Prog \<Rightarrow> bool" where
  "quietly m = (\<forall>w. \<exists>es. trace (snd (m w)) = trace w @ es \<and> (\<forall>e\<in>set es. \<not> isProcessed e))"

section \<open>Plugin instances of an owner\<close>

text \<open>
  Modelled from the spec: the owner side of the lifecycle (\<open>Client.startPluginIfNeeded\<close>,
  \<open>stopPluginIfNeeded\<close>, \<open>initPlugin\<close>, \<open>deinitPlugin\<close> and the plugin instance with
  its connect and disconnect hooks) is not among the sources.  Following the spec, an
  owner keeps its instances keyed by plugin id; "start if needed" instantiates and
  connects, and is a no-op when the pair already has an instance; "stop if needed"
  disconnects and destroys, and is a no-op when there is none; the init signal and a
  selection connect the instance, the deinit signal and a deselection disconnect it,
  and connecting a connected instance or disconnecting a disconnected one does nothing.
  An instance object is identified by a number that is never handed out twice.
\<close>

datatype Hook = Created nat | Connected nat | Disconnected nat | Destroyed nat

datatype LifecycleOp =
    OpStart Client string
  | OpStop Client string
  | OpConnect Client string
  | OpDisconnect Client string

record PluginInstance =
  instanceId :: nat
  connected :: bool

record Instances =
  sandyPluginStates :: "(Client \<times> string) \<rightharpoonup> PluginInstance"
  nextInstance :: nat
  hookLog :: "((Client \<times> string) \<times> Hook) list"

definition noInstances :: Instances where
  "noInstances = \<lparr>sandyPluginStates = Map.empty, nextInstance = 0, hookLog = []\<rparr>"

text \<open>
  Modelled from the spec: connecting and disconnecting an instance fire the hook only
  when the connection state changes.
\<close>

definition connectInstance :: "Client \<times> string \<Rightarrow> Instances \<Rightarrow> Instances" where
  "connectInstance k s =
     (case sandyPluginStates s k of
        None \<Rightarrow> s
      | Some inst \<Rightarrow>
          if connected inst then s
          else s\<lparr>sandyPluginStates := (sandyPluginStates s)(k \<mapsto> inst\<lparr>connected := True\<rparr>),
                 hookLog := hookLog s @ [(k, Connected (instanceId inst))]\<rparr>)"

definition disconnectInstance :: "Client \<times> string \<Rightarrow> Instances \<Rightarrow> Instances" where
  "disconnectInstance k s =
     (case sandyPluginStates s k of
        None \<Rightarrow> s
      | Some inst \<Rightarrow>
          if connected inst
          then s\<lparr>sandyPluginStates := (sandyPluginStates s)(k \<mapsto> inst\<lparr>connected := False\<rparr>),
                 hookLog := hookLog s @ [(k, Disconnected (instanceId inst))]\<rparr>
          else s)"

text \<open>
  Modelled from the spec: a fresh activation yields a fresh instance object, and
  destroying removes the instance of the pair.
\<close>

definition createInstance :: "Client \<times> string \<Rightarrow> Instances \<Rightarrow> Instances" where
  "createInstance k s =
     s\<lparr>sandyPluginStates :=
         (sandyPluginStates s)(k \<mapsto> \<lparr>instanceId = nextInstance s, connected = False\<rparr>),
       nextInstance := Suc (nextInstance s),
       hookLog := hookLog s @ [(k, Created (nextInstance s))]\<rparr>"

definition destroyInstance :: "Client \<times> string \<Rightarrow> Instances \<Rightarrow> Instances" where
  "destroyInstance k s =
     (case sandyPluginStates s k of
        None \<Rightarrow> s
      | Some inst \<Rightarrow>
          s\<lparr>sandyPluginStates := (sandyPluginStates s)(k := None),
            hookLog := hookLog s @ [(k, Destroyed (instanceId inst))]\<rparr>)"

text \<open>
  Modelled from the spec: "start if needed" is an idempotent instantiate and connect,
  "stop if needed" an idempotent disconnect and destroy.
\<close>

definition startPluginIfNeeded :: "Client \<times> string \<Rightarrow> Instances \<Rightarrow> Instances" where
  "startPluginIfNeeded k s =
     (case sandyPluginStates s k of
        Some inst \<Rightarrow> s
      | None \<Rightarrow> connectInstance k (createInstance k s))"

definition stopPluginIfNeeded :: "Client \<times> string \<Rightarrow> Instances \<Rightarrow> Instances" where
  "stopPluginIfNeeded k s =
     (case sandyPluginStates s k of
        None \<Rightarrow> s
      | Some inst \<Rightarrow> destroyInstance k (disconnectInstance k s))"

fun lifecycleStep :: "LifecycleOp \<Rightarrow> Instances \<Rightarrow> Instances" where
  "lifecycleStep (OpStart c p) = startPluginIfNeeded (c, p)"
| "lifecycleStep (OpStop c p) = stopPluginIfNeeded (c, p)"
| "lifecycleStep (OpConnect c p) = connectInstance (c, p)"
| "lifecycleStep (OpDisconnect c p) = disconnectInstance (c, p)"

definition lifecycle :: "LifecycleOp list \<Rightarrow> Instances \<Rightarrow> Instances" where
  "lifecycle ops s = fold lifecycleStep ops s"

text \<open>The calls of the dispatcher, as lifecycle operations of the owner.\<close>

fun lifecycleOps :: "Event \<Rightarrow> LifecycleOp list" where
  "lifecycleOps (StartPluginIfNeeded c p b) = [OpStart c (plugin_id p)]"
| "lifecycleOps (InitPlugin c p) = [OpConnect c p]"
| "lifecycleOps (DeinitPlugin c p) = [OpDisconnect c p]"
| "lifecycleOps (StopPluginIfNeeded c p) = [OpStop c p]"
| "lifecycleOps e = []"

text \<open>The hooks of one pair, in order.\<close>

definition hooksOf :: "Client \<times> string \<Rightarrow> Instances \<Rightarrow> Hook list" where
  "hooksOf k s = map snd (filter (\<lambda>h. fst h = k) (hookLog s))"

text \<open>
  Reading a hook sequence: \<open>connection b hs\<close> is the connection state after \<open>hs\<close> when
  it starts in state \<open>b\<close> and connects and disconnects alternate, and \<open>None\<close> when two
  connects or two disconnects follow each other.
\<close>

fun connection :: "bool \<Rightarrow> Hook list \<Rightarrow> bool option" where
  "connection b [] = Some b"
| "connection b (Connected i # hs) = (if b then None else connection True hs)"
| "connection b (Disconnected i # hs) = (if b then connection False hs else None)"
| "connection b (h # hs) = connection b hs"

text \<open>The instances created and not yet destroyed, after a hook sequence.\<close>

fun liveInstances :: "nat list \<Rightarrow> Hook list \<Rightarrow> nat list" where
  "liveInstances is [] = is"
| "liveInstances is (Created i # hs) = liveInstances (is @ [i]) hs"
| "liveInstances is (Destroyed i # hs) = liveInstances (removeAll i is) hs"
| "liveInstances is (h # hs) = liveInstances is hs"

definition connectedAt :: "Instances \<Rightarrow> Client \<times> string \<Rightarrow> bool" where
  "connectedAt s k = (case sandyPluginStates s k of None \<Rightarrow> False | Some inst \<Rightarrow> connected inst)"

definition liveAt :: "Instances \<Rightarrow> Client \<times> string \<Rightarrow> nat list" where
  "liveAt s k = (case sandyPluginStates s k of None \<Rightarrow> [] | Some inst \<Rightarrow> [instanceId inst])"

fun hookInstance :: "Hook \<Rightarrow> nat" where
  "hookInstance (Created i) = i"
| "hookInstance (Connected i) = i"
| "hookInstance (Disconnected i) = i"
| "hookInstance (Destroyed i) = i"

definition wellFormed :: "Instances \<Rightarrow> bool" where
  "wellFormed s =
     ((\<forall>k inst. sandyPluginStates s k = Some inst \<longrightarrow> instanceId inst < nextInstance s)
      \<and> (\<forall>h\<in>set (hookLog s). hookInstance (snd h) < nextInstance s)
      \<and> (\<forall>k. connection False (hooksOf k s) = Some (connectedAt s k))
      \<and> (\<forall>k. liveInstances [] (hooksOf k s) = liveAt s k))"

definition applyCalls :: "Event list \<Rightarrow> Instances \<Rightarrow> Instances" where
  "applyCalls es = lifecycle (concat (map lifecycleOps es))"



text \<open>
  Relative to an earlier state \<open>I0\<close> of the owners: whether a pair holds an instance
  that existed then (its number had been handed out), and whether it holds an instance
  created since.
\<close>

definition holdsOld :: "Instances \<Rightarrow> Instances \<Rightarrow> Client \<times> string \<Rightarrow> bool" where
  "holdsOld I0 I k =
     (case sandyPluginStates I k of
        None \<Rightarrow> False
      | Some inst \<Rightarrow> instanceId inst < nextInstance I0)"

definition holdsNew :: "Instances \<Rightarrow> Instances \<Rightarrow> Client \<times> string \<Rightarrow> bool" where
  "holdsNew I0 I k =
     (case sandyPluginStates I k of
        None \<Rightarrow> False
      | Some inst \<Rightarrow> nextInstance I0 \<le> instanceId inst)"

text \<open>
  No instance of the pair is older than the number \<open>n\<close>: the pair has none, or one whose
  number is at least \<open>n\<close>, and \<open>n\<close> is not beyond the numbers handed out.
\<close>

definition freshAt :: "nat \<Rightarrow> Instances \<Rightarrow> Client \<times> string \<Rightarrow> bool" where
  "freshAt n s k =
     (n \<le> nextInstance s
      \<and> (case sandyPluginStates s k of None \<Rightarrow> True | Some inst \<Rightarrow> n \<le> instanceId inst))"

text \<open>Kinds of lifecycle operations.\<close>

fun isOpStart :: "LifecycleOp \<Rightarrow> bool" where
  "isOpStart (OpStart c p) = True"
| "isOpStart op = False"

fun isOpStop :: "LifecycleOp \<Rightarrow> bool" where
  "isOpStop (OpStop c p) = True"
| "isOpStop op = False"


section \<open>Device-plugin instances of a device\<close>

text \<open>
  Modelled from the spec: \<open>Device.loadDevicePlugin\<close> and \<open>Device.unloadDevicePlugin\<close>
  are not among the sources.  Following the spec, a device owns zero or more
  device-plugin instances; loading creates an instance of the given definition on the
  device, and unloading destroys the instances the device holds of that plugin id.  The
  instances are kept as the list of (device, definition) pairs, in order of creation.
\<close>

type_synonym DeviceInstances = "(Device \<times> PluginDefinition) list"

fun deviceStep :: "Event \<Rightarrow> DeviceInstances \<Rightarrow> DeviceInstances" where
  "deviceStep (LoadDevicePlugin d p) H = H @ [(d, p)]"
| "deviceStep (UnloadDevicePlugin d pluginId) H =
     filter (\<lambda>h. \<not> (fst h = d \<and> plugin_id (snd h) = pluginId)) H"
| "deviceStep e H = H"

definition applyDeviceCalls :: "Event list \<Rightarrow> DeviceInstances \<Rightarrow> DeviceInstances" where
  "applyDeviceCalls es H = fold deviceStep es H"

text \<open>The versions of a plugin of which a device holds an instance.\<close>

definition versionsHeld :: "DeviceInstances \<Rightarrow> Device \<Rightarrow> string \<Rightarrow> PluginDefinition list" where
  "versionsHeld H d pluginId =
     remdups (map snd (filter (\<lambda>h. fst h = d \<and> plugin_id (snd h) = pluginId) H))"

section \<open>Deep-link delivery\<close>

text \<open>
  Modelled from the spec: the plugin container that hands the deep-link payload of the
  store to the selected plugin instance is not among the sources (only its test is).
  Following the spec, the container renders after every store update, also an unrelated
  one, and on a render hands the current payload to the handler of the selected plugin
  unless it is the payload it handed over last while that plugin stayed selected;
  selecting another plugin ends the continuous selection and forgets that payload.
\<close>

datatype StoreAction =
    SelectPlugin string "string option"
  | OtherUpdate

record Container =
  selectedPlugin :: "string option"
  deepLinkPayload :: "string option"
  lastDeepLink :: "string option"
  linksSeen :: "(string \<times> string) list"

text \<open>
  Modelled from the spec: a render delivers the payload unless it was the one delivered
  last during the current continuous selection.
\<close>

definition renderContainer :: "Container \<Rightarrow> Container" where
  "renderContainer s =
     (case selectedPlugin s of
        None \<Rightarrow> s
      | Some p \<Rightarrow>
          (case deepLinkPayload s of
             None \<Rightarrow> s
           | Some link \<Rightarrow>
               if lastDeepLink s = Some link then s
               else s\<lparr>lastDeepLink := Some link, linksSeen := linksSeen s @ [(p, link)]\<rparr>))"

text \<open>
  Modelled from the spec: a store update is reduced and followed by a render; selecting
  another plugin than the selected one ends the continuous selection.
\<close>

fun storeStep :: "StoreAction \<Rightarrow> Container \<Rightarrow> Container" where
  "storeStep (SelectPlugin p link) s =
     renderContainer
       ((if selectedPlugin s = Some p then s else s\<lparr>lastDeepLink := None\<rparr>)
          \<lparr>selectedPlugin := Some p, deepLinkPayload := link\<rparr>)"
| "storeStep OtherUpdate s = renderContainer s"

definition linksSeenBy :: "string \<Rightarrow> Container \<Rightarrow> string list" where
  "linksSeenBy p s = map snd (filter (\<lambda>d. fst d = p) (linksSeen s))"

text \<open>
  The test "PluginContainer + Sandy plugin supports deeplink": the plugin is selected
  without a payload, then the five steps of the test follow.
\<close>

definition deepLinkTestStart :: Container where
  "deepLinkTestStart =
     \<lparr>selectedPlugin = Some ''TestPlugin'', deepLinkPayload = None, lastDeepLink = None,
      linksSeen = []\<rparr>"

definition deepLinkTestActions :: "StoreAction list" where
  "deepLinkTestActions =
     [SelectPlugin ''TestPlugin'' (Some ''universe!''),
      SelectPlugin ''TestPlugin'' (Some ''universe!''),
      OtherUpdate,
      SelectPlugin ''TestPlugin'' (Some ''london!''),
      SelectPlugin ''Logs'' (Some ''london!''),
      SelectPlugin ''TestPlugin'' (Some ''london!'')]"

section \<open>Concrete data\<close>

text \<open>
  A store in the shape of the test fixture: one client of \<open>TestApp\<close> for which
  \<open>TestPlugin\<close> is a background plugin, one client of \<open>OtherApp\<close>, one device, and
  \<open>TestPlugin\<close> enabled for \<open>OtherApp\<close> only.
\<close>

definition testDetails :: ActivatablePluginDetails where
  "testDetails =
     \<lparr>details_id = ''TestPlugin'', details_title = ''Testplugin'', details_version = ''0.1.0'',
      details_isBundled = False, details_entry = ''./test/index.js''\<rparr>"

definition testPlugin :: PluginDefinition where
  "testPlugin =
     \<lparr>plugin_id = ''TestPlugin'', plugin_title = ''Testplugin'', plugin_version = ''0.1.0'',
      plugin_details = testDetails, plugin_isDevicePlugin = False\<rparr>"

definition nextDetails :: ActivatablePluginDetails where
  "nextDetails =
     \<lparr>details_id = ''TestPlugin'', details_title = ''Testplugin'', details_version = ''0.2.0'',
      details_isBundled = False, details_entry = ''./test2/index.js''\<rparr>"

definition nextPlugin :: PluginDefinition where
  "nextPlugin =
     \<lparr>plugin_id = ''TestPlugin'', plugin_title = ''Testplugin'', plugin_version = ''0.2.0'',
      plugin_details = nextDetails, plugin_isDevicePlugin = False\<rparr>"

definition bundledDetails :: ActivatablePluginDetails where
  "bundledDetails =
     \<lparr>details_id = ''DevicePlugin'', details_title = ''Device'', details_version = ''1.0.0'',
      details_isBundled = True, details_entry = ''./bundled/index.js''\<rparr>"

definition bundledPlugin :: PluginDefinition where
  "bundledPlugin =
     \<lparr>plugin_id = ''DevicePlugin'', plugin_title = ''Device'', plugin_version = ''1.0.0'',
      plugin_details = bundledDetails, plugin_isDevicePlugin = True\<rparr>"

definition devicePluginDetails :: ActivatablePluginDetails where
  "devicePluginDetails =
     \<lparr>details_id = ''DevicePlugin'', details_title = ''Device'', details_version = ''1.1.0'',
      details_isBundled = False, details_entry = ''./device/index.js''\<rparr>"

definition devicePlugin :: PluginDefinition where
  "devicePlugin =
     \<lparr>plugin_id = ''DevicePlugin'', plugin_title = ''Device'', plugin_version = ''1.1.0'',
      plugin_details = devicePluginDetails, plugin_isDevicePlugin = True\<rparr>"

definition appClient :: Client where
  "appClient =
     \<lparr>client_id = ''TestApp#Android#MockAndroidDevice#serial'', query_app = ''TestApp'',
      query_device_id = ''serial'', client_plugins = [''TestPlugin''],
      client_backgroundPlugins = [''TestPlugin'']\<rparr>"

definition otherClient :: Client where
  "otherClient =
     \<lparr>client_id = ''OtherApp#Android#MockAndroidDevice#serial'', query_app = ''OtherApp'',
      query_device_id = ''serial'', client_plugins = [''TestPlugin''],
      client_backgroundPlugins = []\<rparr>"

definition nextDeviceDetails :: ActivatablePluginDetails where
  "nextDeviceDetails =
     \<lparr>details_id = ''DevicePlugin'', details_title = ''Device'', details_version = ''1.2.0'',
      details_isBundled = False, details_entry = ''./device2/index.js''\<rparr>"

definition nextDevicePlugin :: PluginDefinition where
  "nextDevicePlugin =
     \<lparr>plugin_id = ''DevicePlugin'', plugin_title = ''Device'', plugin_version = ''1.2.0'',
      plugin_details = nextDeviceDetails, plugin_isDevicePlugin = True\<rparr>"

definition testDevice :: Device where
  "testDevice = \<lparr>device_serial = ''serial'', device_plugins = [''DevicePlugin'']\<rparr>"

definition secondDevice :: Device where
  "secondDevice = \<lparr>device_serial = ''serial2'', device_plugins = [''DevicePlugin'']\<rparr>"

definition testStore :: State where
  "testStore =
     \<lparr>clients = [appClient, otherClient], devices = [testDevice],
      selectedAppId = Some ''TestApp#Android#MockAndroidDevice#serial'',
      enabledPlugins = [''OtherApp'' \<mapsto> [''TestPlugin'']],
      enabledDevicePlugins = {},
      clientPlugins = [''TestPlugin'' \<mapsto> testPlugin],
      devicePlugins = [''DevicePlugin'' \<mapsto> bundledPlugin],
      pluginCommandsQueue = []\<rparr>"

definition testWorld :: World where
  "testWorld = \<lparr>store = testStore, trace = []\<rparr>"

text \<open>
  The same store with two devices that support \<open>DevicePlugin\<close>, version 1.1.0 being
  the registered one, and the instances the two devices hold of it.
\<close>

definition twoDeviceStore :: State where
  "twoDeviceStore =
     testStore\<lparr>devices := [testDevice, secondDevice],
       devicePlugins := [''DevicePlugin'' \<mapsto> devicePlugin]\<rparr>"

definition twoDeviceWorld :: World where
  "twoDeviceWorld = \<lparr>store = twoDeviceStore, trace = []\<rparr>"

definition twoDeviceInstances :: DeviceInstances where
  "twoDeviceInstances = [(testDevice, devicePlugin), (secondDevice, devicePlugin)]"

text \<open>
  A client of an app called \<open>constructor\<close>, a name every object inherits, and the store
  in which it is connected next to the client of \<open>TestApp\<close>.
\<close>

definition ctorClient :: Client where
  "ctorClient =
     \<lparr>client_id = ''constructor#Android#MockAndroidDevice#serial'',
      query_app = ''constructor'', query_device_id = ''serial'',
      client_plugins = [''TestPlugin''], client_backgroundPlugins = []\<rparr>"

definition ctorStore :: State where
  "ctorStore = testStore\<lparr>clients := [appClient, ctorClient]\<rparr>"

definition ctorWorld :: World where
  "ctorWorld = \<lparr>store = ctorStore, trace = []\<rparr>"

text \<open>
  The owners after both clients of the test store started \<open>TestPlugin\<close>: the client of
  \<open>TestApp\<close> holds instance 0 and the client of \<open>OtherApp\<close> instance 1.
\<close>

definition startedInstances :: Instances where
  "startedInstances =
     lifecycle [OpStart appClient ''TestPlugin'', OpStart otherClient ''TestPlugin''] noInstances"

text \<open>
  An environment in which no call throws, one in which every stop call throws, and one
  in which every \<open>startPluginIfNeeded\<close> and every \<open>loadDevicePlugin\<close> throws.
\<close>

definition quietEnv :: Env where
  "quietEnv =
     \<lparr>defaultEnabledBackgroundPlugins = [''Navigation''],
      deconstructClientId_app = takeWhile (\<lambda>c. c \<noteq> CHR ''#''),
      requirePlugin = (\<lambda>d. if d = nextDetails then nextPlugin else devicePlugin),
      throws = (\<lambda>tr e. False)\<rparr>"

definition stopThrowsEnv :: Env where
  "stopThrowsEnv =
     \<lparr>defaultEnabledBackgroundPlugins = [''Navigation''],
      deconstructClientId_app = takeWhile (\<lambda>c. c \<noteq> CHR ''#''),
      requirePlugin = (\<lambda>d. if d = nextDetails then nextPlugin else devicePlugin),
      throws = (\<lambda>tr e. case e of StopPluginIfNeeded c p \<Rightarrow> True | _ \<Rightarrow> False)\<rparr>"

definition startThrowsEnv :: Env where
  "startThrowsEnv =
     \<lparr>defaultEnabledBackgroundPlugins = [''Navigation''],
      deconstructClientId_app = takeWhile (\<lambda>c. c \<noteq> CHR ''#''),
      requirePlugin = (\<lambda>d. if d = nextDetails then nextPlugin else devicePlugin),
      throws = (\<lambda>tr e. case e of StartPluginIfNeeded c p b \<Rightarrow> True
                          | LoadDevicePlugin d p \<Rightarrow> True | _ \<Rightarrow> False)\<rparr>"

text \<open>A queue whose first command throws under \<open>stopThrowsEnv\<close>.\<close>

definition testQueue :: "PluginCommand list" where
  "testQueue =
     [UPDATE_PLUGIN nextPlugin False,
      UNKNOWN_COMMAND ''NOPE'',
      SWITCH_PLUGIN testPlugin None]"


section \<open>Lemmas\<close>

text \<open>
  Each function of the dispatcher runs its plan, and throws after it when a registry
  lookup failed: the refinement lemmas \<open>_exec\<close> say so, and the lemmas on \<open>exec\<close> and
  \<open>execThen\<close> turn them into statements about the trace and the result.
\<close>

subsection \<open>Running a plan\<close>

lemma perform_trace:
  "trace (snd (perform E e w)) = trace w @ [e]"
  by (cases e) (simp_all add: call_def dispatch_def)

lemma perform_result:
  "(\<exists>v. fst (perform E e w) = Inr v) = (\<not> throws E (trace w) e)"
  by (cases e) (simp_all add: call_def dispatch_def)

lemma perform_throws:
  "throws E (trace w) e \<Longrightarrow> perform E e w = (Inl (Thrown e), w\<lparr>trace := trace w @ [e]\<rparr>)"
  by (cases e) (simp_all add: call_def dispatch_def)

lemma exec_Nil [simp]: "exec E [] = ret ()"
  by (rule ext) (simp add: exec_def ret_def)

lemma exec_Cons: "exec E (e # es) = andThen (perform E e) (\<lambda>_. exec E es)"
  by (rule ext) (simp add: exec_def andThen_def split: prod.splits sum.splits)

lemma andThen_ret_left [simp]: "andThen (ret v) k = k v"
  by (rule ext) (simp add: andThen_def ret_def)

lemma andThen_ret_right [simp]: "andThen m ret = m"
  by (rule ext) (simp add: andThen_def ret_def split: prod.splits sum.splits)

lemma andThen_ret_unit [simp]: "andThen m (\<lambda>_. ret ()) = (m :: unit Prog)"
  using andThen_ret_right [of m] by (simp add: fun_eq_iff andThen_def ret_def split: prod.splits sum.splits)

lemma andThen_assoc: "andThen (andThen m k) h = andThen m (\<lambda>v. andThen (k v) h)"
  by (rule ext) (simp add: andThen_def split: prod.splits sum.splits)

lemma exec_append: "exec E (xs @ ys) = andThen (exec E xs) (\<lambda>_. exec E ys)"
  by (induction xs) (simp_all add: exec_Cons andThen_assoc)

lemma exec_single: "exec E [e] = perform E e"
  by (simp add: exec_Cons)

lemma forEach_andThen: "forEach f (x # xs) = andThen (f x) (\<lambda>_. forEach f xs)"
  by (rule ext) (simp add: andThen_def split: prod.splits sum.splits)

lemma forEach_Nil: "forEach f [] = ret ()"
  by (rule ext) (simp add: ret_def)

lemma forEach_exec:
  assumes "\<And>x. f x = exec E (g x)"
  shows "forEach f xs = exec E (concat (map g xs))"
  by (induction xs) (simp_all add: forEach_Nil forEach_andThen assms exec_append del: forEach.simps)

lemma exec_trace: "trace (snd (exec E es w)) = trace w @ emitted E (trace w) es"
proof (induction es arbitrary: w)
  case Nil
  then show ?case by (simp add: ret_def)
next
  case (Cons e es)
  show ?case
  proof (cases "throws E (trace w) e")
    case True
    then show ?thesis by (simp add: exec_Cons andThen_def perform_throws)
  next
    case False
    then obtain w' where p: "perform E e w = (Inr (), w')"
      using perform_result [of E e w] by (cases "perform E e w") auto
    then have "trace w' = trace w @ [e]"
      using perform_trace [of E e w] by simp
    with p False Cons.IH [of w'] show ?thesis
      by (simp add: exec_Cons andThen_def)
  qed
qed

lemma exec_result: "(fst (exec E es w) = Inr ()) = completes E (trace w) es"
proof (induction es arbitrary: w)
  case Nil
  then show ?case by (simp add: ret_def)
next
  case (Cons e es)
  show ?case
  proof (cases "throws E (trace w) e")
    case True
    then show ?thesis by (simp add: exec_Cons andThen_def perform_throws)
  next
    case False
    then obtain w' where p: "perform E e w = (Inr (), w')"
      using perform_result [of E e w] by (cases "perform E e w") auto
    then have "trace w' = trace w @ [e]"
      using perform_trace [of E e w] by simp
    with p False Cons.IH [of w'] show ?thesis
      by (simp add: exec_Cons andThen_def)
  qed
qed

lemma emitted_prefix: "prefix (emitted E tr es) es"
  by (induction es arbitrary: tr) simp_all

lemma emitted_completes: "completes E tr es \<Longrightarrow> emitted E tr es = es"
  by (induction es arbitrary: tr) simp_all

lemma noThrow_completes: "noThrow E \<Longrightarrow> completes E tr es"
  by (induction es arbitrary: tr) (simp_all add: noThrow_def)

lemma execThen_None [simp]: "execThen E es None = exec E es"
  by (simp add: execThen_def)

lemma execThen_Cons: "execThen E (e # es) x = andThen (perform E e) (\<lambda>_. execThen E es x)"
  by (simp add: execThen_def exec_Cons andThen_assoc)

lemma execThen_append: "execThen E (xs @ ys) x = andThen (exec E xs) (\<lambda>_. execThen E ys x)"
  by (simp add: execThen_def exec_append andThen_assoc)

lemma execThen_Nil_Some: "execThen E [] (Some x) = throw x"
  by (simp add: execThen_def)

lemma execThen_eq:
  "execThen E es x w =
     (case exec E es w of
        (Inl y, w') \<Rightarrow> (Inl y, w')
      | (Inr v, w') \<Rightarrow> (case x of None \<Rightarrow> (Inr (), w') | Some y \<Rightarrow> (Inl y, w')))"
  by (cases x) (simp_all add: execThen_def andThen_def ret_def throw_def split: prod.splits sum.splits)

lemma execThen_trace: "trace (snd (execThen E es x w)) = trace w @ emitted E (trace w) es"
proof (cases "exec E es w")
  case (Pair r w')
  with exec_trace [of E es w] show ?thesis
    by (cases r; cases x) (simp_all add: execThen_eq)
qed

lemma execThen_result:
  "(fst (execThen E es x w) = Inr ()) = (completes E (trace w) es \<and> x = None)"
proof (cases "exec E es w")
  case (Pair r w')
  with exec_result [of E es w] show ?thesis
    by (cases r; cases x) (simp_all add: execThen_eq)
qed

lemma andThen_Inr: "m w = (Inr v, w') \<Longrightarrow> andThen m k w = k v w'"
  by (simp add: andThen_def)

lemma andThen_Inl: "m w = (Inl x, w') \<Longrightarrow> andThen m k w = (Inl x, w')"
  by (simp add: andThen_def)

subsection \<open>The functions of the dispatcher run their plans\<close>

lemma startPlugin_exec: "startPlugin E c p force = exec E (startEvents E c p force)"
  by (simp add: startPlugin_def startEvents_def exec_Cons backgroundSignal_def)

lemma stopPlugin_exec:
  "andThen (stopPlugin E c pid force) (\<lambda>_. k) = andThen (exec E (stopEvents E c pid force)) (\<lambda>_. k)"
  by (simp add: stopPlugin_def stopEvents_def exec_Cons backgroundSignal_def andThen_assoc)

lemma unloadPluginModule_exec: "unloadPluginModule E d = exec E (unloadEvents d)"
  by (simp add: unloadPluginModule_def unloadEvents_def exec_single)

lemma previousUnload_exec:
  "(case pv of None \<Rightarrow> ret () | Some prev \<Rightarrow> unloadPluginModule E (plugin_details prev))
     = exec E (previousUnloadEvents pv)"
  by (cases pv) (simp_all add: previousUnloadEvents_def unloadPluginModule_exec)

lemma forEach_stop_exec:
  "forEach (\<lambda>client. andThen (stopPlugin E client pid force) (\<lambda>_. ret ())) cs
     = exec E (concat (map (\<lambda>c. stopEvents E c pid force) cs))"
  by (rule forEach_exec) (simp add: stopPlugin_exec)

lemma forEach_start_exec:
  "forEach (\<lambda>client. startPlugin E client plugin force) cs
     = exec E (concat (map (\<lambda>c. startEvents E c plugin force) cs))"
  by (rule forEach_exec) (simp add: startPlugin_exec)

lemma dispatch_exec: "dispatch E a = exec E [Dispatch a]"
  by (simp add: exec_single)

lemma swapClient_exec:
  "andThen
     (forEach (\<lambda>client. andThen (stopPlugin E client (plugin_id plugin) False) (\<lambda>_. ret ())) cs)
     (\<lambda>_. andThen (forEach (\<lambda>client. startPlugin E client plugin True) cs)
        (\<lambda>_. andThen (dispatch E (PluginLoaded plugin))
           (\<lambda>_. case clientPlugins s (plugin_id plugin) of None \<Rightarrow> ret ()
                 | Some prev \<Rightarrow> unloadPluginModule E (plugin_details prev))))
   = exec E (swapEvents E plugin cs s)"
  unfolding forEach_stop_exec forEach_start_exec previousUnload_exec dispatch_exec swapEvents_def
  by (simp only: exec_append)

lemma fromResult_andThen:
  "andThen (fromResult r) k w = (case r of Inl x \<Rightarrow> (Inl x, w) | Inr v \<Rightarrow> k v w)"
  by (cases r) (simp_all add: andThen_def fromResult_def)

lemma exec_Cons_dispatch:
  "exec E (Dispatch a # es) w =
     (if throws E (trace w) (Dispatch a)
      then (Inl (Thrown (Dispatch a)), w\<lparr>trace := trace w @ [Dispatch a]\<rparr>)
      else exec E es (w\<lparr>store := reducer a (store w), trace := trace w @ [Dispatch a]\<rparr>))"
  by (simp add: exec_Cons andThen_def dispatch_def)

lemma filterE_Inr: "filterE f xs = Inr ys \<Longrightarrow> ys = filter (\<lambda>x. f x = Inr True) xs"
  by (induction xs arbitrary: ys) (auto split: sum.splits if_splits)

lemma filterE_Inl: "filterE f xs = Inl e \<Longrightarrow> \<exists>x\<in>set xs. f x = Inl e"
  by (induction xs) (auto split: sum.splits if_splits)

lemma passClients_Inr:
  assumes "passClients E plugin enable s = Inr cs"
  shows "cs = filter (\<lambda>c. supportsPlugin c (plugin_id plugin)
                        \<and> enabledFor (afterEnable E plugin enable s) (query_app c)
                              (plugin_id plugin) = Inr True)
                (clients s)"
proof -
  from assms have "cs = filter (\<lambda>c. (if supportsPlugin c (plugin_id plugin)
                      then enabledFor (afterEnable E plugin enable s) (query_app c)
                             (plugin_id plugin)
                      else Inr False) = Inr True) (clients s)"
    unfolding passClients_def clientsWithEnabledPlugin_def by (rule filterE_Inr)
  also have "\<dots> = filter (\<lambda>c. supportsPlugin c (plugin_id plugin)
                        \<and> enabledFor (afterEnable E plugin enable s) (query_app c)
                              (plugin_id plugin) = Inr True)
                (clients s)"
    by (rule filter_cong) auto
  finally show ?thesis .
qed

lemma passClients_Inl:
  assumes "passClients E plugin enable s = Inl x"
  shows "\<exists>c\<in>set (clients s). supportsPlugin c (plugin_id plugin)
            \<and> enabledFor (afterEnable E plugin enable s) (query_app c) (plugin_id plugin) = Inl x"
proof -
  from assms obtain c where "c \<in> set (clients s)"
      "(if supportsPlugin c (plugin_id plugin)
        then enabledFor (afterEnable E plugin enable s) (query_app c) (plugin_id plugin)
        else Inr False) = Inl x"
    unfolding passClients_def clientsWithEnabledPlugin_def by (blast dest: filterE_Inl)
  then show ?thesis
    by (cases "supportsPlugin c (plugin_id plugin)") auto
qed

lemma swapEvents_afterEnable:
  "swapEvents E plugin cs (afterEnable E plugin enable s) = swapEvents E plugin cs s"
  by (cases "enableTarget E enable s") (simp_all add: swapEvents_def afterEnable_def)

lemma updateClientPlugin_tail:
  "andThen (fromResult (clientsWithEnabledPlugin (afterEnable E plugin enable s) (clients s)
              (plugin_id plugin)))
     (\<lambda>cs. exec E (swapEvents E plugin cs (afterEnable E plugin enable s))) w1 =
   execThen E (case passClients E plugin enable s of
                 Inl x \<Rightarrow> [] | Inr cs \<Rightarrow> swapEvents E plugin cs s)
     (updateClientPluginFailure E plugin enable s) w1"
  by (cases "passClients E plugin enable s")
     (simp_all add: fromResult_andThen passClients_def updateClientPluginFailure_def
        swapEvents_afterEnable execThen_Nil_Some throw_def)

lemma updateClientPlugin_exec:
  "updateClientPlugin E plugin enable w =
     execThen E (updateClientPluginPlan E plugin enable (store w))
       (updateClientPluginFailure E plugin enable (store w)) w"
proof (cases "enableTarget E enable (store w)")
  case None
  then have ae: "afterEnable E plugin enable (store w) = store w"
    by (simp add: afterEnable_def)
  from None have "updateClientPlugin E plugin enable w =
      andThen (fromResult (clientsWithEnabledPlugin (store w) (clients (store w))
                 (plugin_id plugin)))
        (\<lambda>cs. exec E (swapEvents E plugin cs (store w))) w"
    unfolding updateClientPlugin_def Let_def swapClient_exec
    by (auto simp: enableTarget_def getAllClients_def split: option.splits if_splits)
  with updateClientPlugin_tail [of E plugin enable "store w" w] None show ?thesis
    by (simp add: ae updateClientPluginPlan_def enableEvents_def)
next
  case (Some app)
  let ?a = "SetPluginEnabled (plugin_id plugin) app"
  from Some have ae: "afterEnable E plugin enable (store w) = reducer ?a (store w)"
    by (simp add: afterEnable_def)
  from Some have run: "updateClientPlugin E plugin enable w =
      andThen (dispatch E ?a)
        (\<lambda>_ w1. andThen (fromResult (clientsWithEnabledPlugin (store w1) (clients (store w))
                            (plugin_id plugin)))
                   (\<lambda>cs. exec E (swapEvents E plugin cs (store w1))) w1) w"
    unfolding updateClientPlugin_def Let_def swapClient_exec
    by (auto simp: enableTarget_def getAllClients_def split: option.splits if_splits)
  have plan: "updateClientPluginPlan E plugin enable (store w) =
      Dispatch ?a # (case passClients E plugin enable (store w) of
                       Inl x \<Rightarrow> [] | Inr cs \<Rightarrow> swapEvents E plugin cs (store w))"
    using Some by (simp add: updateClientPluginPlan_def enableEvents_def)
  show ?thesis
  proof (cases "throws E (trace w) (Dispatch ?a)")
    case True
    then have d: "dispatch E ?a w = (Inl (Thrown (Dispatch ?a)), w\<lparr>trace := trace w @ [Dispatch ?a]\<rparr>)"
      by (simp add: dispatch_def)
    show ?thesis
      unfolding run plan execThen_Cons perform.simps
      by (simp only: andThen_Inl [of "dispatch E ?a" w, OF d])
  next
    case False
    let ?w1 = "w\<lparr>store := reducer ?a (store w), trace := trace w @ [Dispatch ?a]\<rparr>"
    from False have d: "dispatch E ?a w = (Inr (), ?w1)"
      by (simp add: dispatch_def)
    have st: "store ?w1 = afterEnable E plugin enable (store w)"
      unfolding ae by simp
    show ?thesis
      unfolding run plan execThen_Cons perform.simps
      by (simp only: andThen_Inr [of "dispatch E ?a" w, OF d] st updateClientPlugin_tail)
  qed
qed

lemma perform_store: "\<not> isDispatch e \<Longrightarrow> store (snd (perform E e w)) = store w"
  by (cases e) (simp_all add: call_def)

lemma exec_store: "\<forall>e\<in>set es. \<not> isDispatch e \<Longrightarrow> store (snd (exec E es w)) = store w"
proof (induction es arbitrary: w)
  case Nil
  then show ?case by (simp add: ret_def)
next
  case (Cons e es)
  then have e: "store (snd (perform E e w)) = store w" and es: "\<forall>x\<in>set es. \<not> isDispatch x"
    by (simp_all add: perform_store)
  show ?case
  proof (cases "perform E e w")
    case (Pair r w')
    with e Cons.IH [OF es, of w'] show ?thesis
      by (cases r) (simp_all add: exec_Cons andThen_def)
  qed
qed

lemma andThen_store:
  assumes "store (snd (m w)) = store w"
  shows "andThen m (\<lambda>v w'. k (store w') v w') w = andThen m (k (store w)) w"
proof (cases "m w")
  case (Pair r w')
  with assms show ?thesis by (cases r) (simp_all add: andThen_def)
qed

lemma forEach_unload_exec:
  "forEach (\<lambda>d. call E (UnloadDevicePlugin d pid)) ds = exec E (map (\<lambda>d. UnloadDevicePlugin d pid) ds)"
proof -
  have "forEach (\<lambda>d. call E (UnloadDevicePlugin d pid)) ds
          = exec E (concat (map (\<lambda>d. [UnloadDevicePlugin d pid]) ds))"
    by (rule forEach_exec) (simp add: exec_single)
  then show ?thesis by (simp add: concat_map_singleton)
qed

lemma forEach_load_exec:
  "forEach (\<lambda>d. call E (LoadDevicePlugin d p)) ds = exec E (map (\<lambda>d. LoadDevicePlugin d p) ds)"
proof -
  have "forEach (\<lambda>d. call E (LoadDevicePlugin d p)) ds
          = exec E (concat (map (\<lambda>d. [LoadDevicePlugin d p]) ds))"
    by (rule forEach_exec) (simp add: exec_single)
  then show ?thesis by (simp add: concat_map_singleton)
qed

lemma swapDevice_exec:
  "andThen (forEach (\<lambda>d. call E (UnloadDevicePlugin d (plugin_id plugin))) ds)
     (\<lambda>_ w2. andThen
        (case devicePlugins (store w2) (plugin_id plugin) of
           None \<Rightarrow> ret ()
         | Some prev \<Rightarrow> unloadPluginModule E (plugin_details prev))
        (\<lambda>_. andThen (dispatch E (PluginLoaded plugin))
           (\<lambda>_. forEach (\<lambda>d. call E (LoadDevicePlugin d plugin)) ds))
        w2) w1
   = exec E (map (\<lambda>d. UnloadDevicePlugin d (plugin_id plugin)) ds
       @ previousUnloadEvents (devicePlugins (store w1) (plugin_id plugin))
       @ [Dispatch (PluginLoaded plugin)]
       @ map (\<lambda>d. LoadDevicePlugin d plugin) ds) w1"
proof -
  let ?unl = "map (\<lambda>d. UnloadDevicePlugin d (plugin_id plugin)) ds"
  let ?k = "\<lambda>s (_::unit). exec E (previousUnloadEvents (devicePlugins s (plugin_id plugin))
       @ [Dispatch (PluginLoaded plugin)] @ map (\<lambda>d. LoadDevicePlugin d plugin) ds)"
  have st: "store (snd (exec E ?unl w1)) = store w1"
    by (rule exec_store) auto
  have mid: "andThen (exec E ?unl) (\<lambda>v w'. ?k (store w') v w') w1 = andThen (exec E ?unl) (?k (store w1)) w1"
    using st by (rule andThen_store)
  have "andThen (forEach (\<lambda>d. call E (UnloadDevicePlugin d (plugin_id plugin))) ds)
     (\<lambda>_ w2. andThen
        (case devicePlugins (store w2) (plugin_id plugin) of
           None \<Rightarrow> ret ()
         | Some prev \<Rightarrow> unloadPluginModule E (plugin_details prev))
        (\<lambda>_. andThen (dispatch E (PluginLoaded plugin))
           (\<lambda>_. forEach (\<lambda>d. call E (LoadDevicePlugin d plugin)) ds))
        w2) w1 = andThen (exec E ?unl) (\<lambda>v w'. ?k (store w') v w') w1"
    unfolding forEach_unload_exec forEach_load_exec previousUnload_exec dispatch_exec
    by (simp only: exec_append)
  also note mid
  also have "andThen (exec E ?unl) (?k (store w1)) w1 = exec E (?unl
       @ previousUnloadEvents (devicePlugins (store w1) (plugin_id plugin))
       @ [Dispatch (PluginLoaded plugin)]
       @ map (\<lambda>d. LoadDevicePlugin d plugin) ds) w1"
    by (simp only: exec_append)
  finally show ?thesis .
qed

lemma updateDevicePlugin_exec:
  "updateDevicePlugin E plugin enable w = exec E (updateDevicePluginPlan plugin enable (store w)) w"
proof (cases enable)
  case False
  then show ?thesis
    unfolding updateDevicePlugin_def Let_def swapDevice_exec
    by (simp add: updateDevicePluginPlan_def Let_def)
next
  case True
  then show ?thesis
    unfolding updateDevicePlugin_def Let_def swapDevice_exec
    by (simp add: updateDevicePluginPlan_def Let_def exec_Cons_dispatch andThen_def dispatch_def)
qed

lemma forEach_stop_clear_exec:
  "forEach (\<lambda>client. andThen (stopPlugin E client pid False)
              (\<lambda>_. dispatch E (ClearMessageQueue (client_id client) (query_device_id client) pid))) cs
     = exec E (concat (map (\<lambda>c. stopEvents E c pid False
                 @ [Dispatch (ClearMessageQueue (client_id c) (query_device_id c) pid)]) cs))"
  by (rule forEach_exec) (simp add: stopPlugin_exec dispatch_exec exec_append)

lemma toggle_exec:
  "(if enabled
    then andThen
           (forEach
              (\<lambda>client. andThen (stopPlugin E client (plugin_id plugin) False)
                 (\<lambda>_. dispatch E
                        (ClearMessageQueue (client_id client)
                           (query_device_id client) (plugin_id plugin))))
              cs)
           (\<lambda>_. dispatch E (SetPluginDisabled (plugin_id plugin) app))
    else andThen
           (forEach (\<lambda>client. startPlugin E client plugin False) cs)
           (\<lambda>_. dispatch E (SetPluginEnabled (plugin_id plugin) app)))
   = exec E (toggleEvents E plugin app enabled cs)"
  unfolding forEach_stop_clear_exec forEach_start_exec
  unfolding dispatch_exec
  by (simp add: toggleEvents_def exec_append)

lemma switchClientPlugin_resolved:
  "andThen (fromResult (enabledFor s app (plugin_id plugin)))
     (\<lambda>enabled. exec E (toggleEvents E plugin app enabled (getClientsByAppName (clients s) app))) w
   = execThen E (switchClientPluginPlan E plugin app s) (switchClientPluginFailure plugin app s) w"
  by (cases "enabledFor s app (plugin_id plugin)")
     (simp_all add: fromResult_andThen switchClientPluginPlan_def switchClientPluginFailure_def
        execThen_Nil_Some throw_def)

lemma switchClientPlugin_exec:
  "switchClientPlugin E plugin selectedApp w =
     (case resolveApp E selectedApp (store w) of
        None \<Rightarrow> (Inr (), w)
      | Some app \<Rightarrow>
          execThen E (switchClientPluginPlan E plugin app (store w))
            (switchClientPluginFailure plugin app (store w)) w)"
  unfolding switchClientPlugin_def Let_def toggle_exec switchClientPlugin_resolved
  by (simp add: resolveApp_def ret_def split: option.splits)

lemma switchDevicePlugin_exec:
  "switchDevicePlugin E plugin w = exec E (switchDevicePluginPlan plugin (store w)) w"
  unfolding switchDevicePlugin_def Let_def forEach_unload_exec forEach_load_exec dispatch_exec
  by (simp add: switchDevicePluginPlan_def Let_def exec_append)

lemma updatePlugin_exec:
  "updatePlugin E plugin enable w =
     execThen E (updatePluginPlan E plugin enable (store w))
       (updatePluginFailure E plugin enable (store w)) w"
  by (simp add: updatePlugin_def updatePluginPlan_def updatePluginFailure_def
        updateDevicePlugin_exec updateClientPlugin_exec)

lemma updatePlugin_exec_fun:
  "updatePlugin E plugin enable =
     (\<lambda>w. execThen E (updatePluginPlan E plugin enable (store w))
            (updatePluginFailure E plugin enable (store w)) w)"
  by (rule ext) (rule updatePlugin_exec)

lemma exec_cases:
  obtains w' where "exec E es w = (Inr (), w')" "completes E (trace w) es"
      "trace w' = trace w @ es"
  | x w' where "exec E es w = (Inl x, w')" "\<not> completes E (trace w) es"
      "trace w' = trace w @ emitted E (trace w) es"
proof (cases "exec E es w")
  case (Pair r w')
  show ?thesis
  proof (cases r)
    case (Inl x)
    with Pair exec_result [of E es w] exec_trace [of E es w] that(2) [of x w'] show ?thesis
      by simp
  next
    case (Inr u)
    with Pair exec_result [of E es w] exec_trace [of E es w] that(1) [of w'] show ?thesis
      by (simp add: emitted_completes)
  qed
qed

lemma execThen_cases:
  obtains w' where "execThen E es x w = (Inr (), w')" "completes E (trace w) es" "x = None"
      "trace w' = trace w @ es"
  | y w' where "execThen E es x w = (Inl y, w')" "\<not> (completes E (trace w) es \<and> x = None)"
      "trace w' = trace w @ emitted E (trace w) es"
proof (cases "execThen E es x w")
  case (Pair r w')
  show ?thesis
  proof (cases r)
    case (Inl y)
    with Pair execThen_result [of E es x w] execThen_trace [of E es x w] that(2) [of y w']
    show ?thesis by simp
  next
    case (Inr u)
    with Pair execThen_result [of E es x w] execThen_trace [of E es x w] that(1) [of w']
    show ?thesis by (simp add: emitted_completes)
  qed
qed

lemma loadPlugin_try:
  "andThen (call E (RequirePlugin plugin)) (\<lambda>_. updatePlugin E (requirePlugin E plugin) enable) w
     = execThen E (loadPluginPlan E plugin enable (store w))
         (updatePluginFailure E (requirePlugin E plugin) enable (store w)) w"
proof -
  let ?k = "\<lambda>s (_::unit). execThen E (updatePluginPlan E (requirePlugin E plugin) enable s)
       (updatePluginFailure E (requirePlugin E plugin) enable s)"
  have "store (snd (call E (RequirePlugin plugin) w)) = store w"
    by (simp add: call_def)
  then have "andThen (call E (RequirePlugin plugin)) (\<lambda>v w'. ?k (store w') v w') w
             = andThen (call E (RequirePlugin plugin)) (?k (store w)) w"
    by (rule andThen_store)
  then show ?thesis
    by (simp add: loadPluginPlan_def execThen_Cons updatePlugin_exec_fun)
qed

lemma loadCatch_eq:
  "loadCatch plugin notifyIfFailed w =
     (Inr (), w\<lparr>trace := trace w @ loadFailureEvents plugin notifyIfFailed\<rparr>)"
  by (simp add: loadCatch_def loadFailureEvents_def andThen_def sink_def ret_def)

lemma loadPlugin_unfold:
  "loadPlugin E plugin enable notifyIfFailed w =
     (case execThen E (loadPluginPlan E plugin enable (store w))
             (updatePluginFailure E (requirePlugin E plugin) enable (store w)) w of
        (Inl x, w') \<Rightarrow> loadCatch plugin notifyIfFailed w'
      | (Inr v, w') \<Rightarrow> (Inr v, w'))"
  unfolding loadPlugin_def tryCatch_def loadPlugin_try loadCatch_def by (rule refl)

lemma loadPlugin_result: "fst (loadPlugin E plugin enable notifyIfFailed w) = Inr ()"
  by (rule execThen_cases [of E "loadPluginPlan E plugin enable (store w)"
        "updatePluginFailure E (requirePlugin E plugin) enable (store w)" w])
     (simp_all add: loadPlugin_unfold loadCatch_eq)

lemma loadPlugin_trace:
  "trace (snd (loadPlugin E plugin enable notifyIfFailed w)) =
     trace w @ emitted E (trace w) (loadPluginPlan E plugin enable (store w))
       @ (if completes E (trace w) (loadPluginPlan E plugin enable (store w))
             \<and> updatePluginFailure E (requirePlugin E plugin) enable (store w) = None
          then []
          else loadFailureEvents plugin notifyIfFailed)"
proof (rule execThen_cases [of E "loadPluginPlan E plugin enable (store w)"
        "updatePluginFailure E (requirePlugin E plugin) enable (store w)" w])
  fix w'
  assume "execThen E (loadPluginPlan E plugin enable (store w))
            (updatePluginFailure E (requirePlugin E plugin) enable (store w)) w = (Inr (), w')"
    "completes E (trace w) (loadPluginPlan E plugin enable (store w))"
    "updatePluginFailure E (requirePlugin E plugin) enable (store w) = None"
    "trace w' = trace w @ loadPluginPlan E plugin enable (store w)"
  then show ?thesis
    by (simp add: loadPlugin_unfold emitted_completes)
next
  fix y w'
  assume run: "execThen E (loadPluginPlan E plugin enable (store w))
            (updatePluginFailure E (requirePlugin E plugin) enable (store w)) w = (Inl y, w')"
    and n: "\<not> (completes E (trace w) (loadPluginPlan E plugin enable (store w))
            \<and> updatePluginFailure E (requirePlugin E plugin) enable (store w) = None)"
    and t: "trace w' = trace w @ emitted E (trace w) (loadPluginPlan E plugin enable (store w))"
  from run t show ?thesis
    unfolding if_not_P [OF n] by (simp add: loadPlugin_unfold loadCatch_eq)
qed

lemma uninstallPlugin_try:
  "andThen
     (forEach (\<lambda>client. andThen (stopPlugin E client (plugin_id plugin) False) (\<lambda>_. ret ()))
        (clients (store w)))
     (\<lambda>_. andThen
        (if \<not> details_isBundled (plugin_details plugin)
         then unloadPluginModule E (plugin_details plugin)
         else ret ())
        (\<lambda>_. dispatch E (PluginUninstalled (plugin_details plugin)))) w
   = exec E (uninstallPluginPlan E plugin (store w)) w"
  unfolding forEach_stop_exec dispatch_exec unloadPluginModule_exec
  by (simp add: uninstallPluginPlan_def exec_append unloadEvents_def)

lemma uninstallCatch_eq:
  "uninstallCatch plugin w = (Inr (), w\<lparr>trace := trace w @ uninstallFailureEvents plugin\<rparr>)"
  by (simp add: uninstallCatch_def uninstallFailureEvents_def andThen_def sink_def)

lemma uninstallPlugin_unfold:
  "uninstallPlugin E plugin w =
     (case exec E (uninstallPluginPlan E plugin (store w)) w of
        (Inl x, w') \<Rightarrow> uninstallCatch plugin w'
      | (Inr v, w') \<Rightarrow> (Inr v, w'))"
  unfolding uninstallPlugin_def tryCatch_def uninstallPlugin_try uninstallCatch_def by (rule refl)

lemma uninstallPlugin_result: "fst (uninstallPlugin E plugin w) = Inr ()"
  by (rule exec_cases [of E "uninstallPluginPlan E plugin (store w)" w])
     (simp_all add: uninstallPlugin_unfold uninstallCatch_eq)

lemma uninstallPlugin_trace:
  "trace (snd (uninstallPlugin E plugin w)) =
     trace w @ emitted E (trace w) (uninstallPluginPlan E plugin (store w))
       @ (if completes E (trace w) (uninstallPluginPlan E plugin (store w)) then []
          else uninstallFailureEvents plugin)"
  by (rule exec_cases [of E "uninstallPluginPlan E plugin (store w)" w])
     (simp_all add: uninstallPlugin_unfold uninstallCatch_eq emitted_completes)

subsection \<open>The calls added to the trace\<close>

lemma emittedBy_eq: "trace (snd (m w)) = trace w @ es \<Longrightarrow> emittedBy m w = es"
  by (simp add: emittedBy_def)

lemma emittedBy_exec: "emittedBy (exec E es) w = emitted E (trace w) es"
  by (rule emittedBy_eq) (rule exec_trace)

lemma emittedBy_cong: "(\<And>w. m w = m' w) \<Longrightarrow> emittedBy m w = emittedBy m' w"
  by (simp add: emittedBy_def)

lemma emittedBy_startPlugin:
  "emittedBy (startPlugin E c p force) w =
     StartPluginIfNeeded c p True
       # (if \<not> throws E (trace w) (StartPluginIfNeeded c p True)
             \<and> backgroundSignal E c (plugin_id p) force
          then [InitPlugin c (plugin_id p)] else [])"
  by (simp add: startPlugin_exec emittedBy_exec startEvents_def)

lemma emittedBy_stopPlugin:
  "emittedBy (stopPlugin E c pid force) w =
     (if backgroundSignal E c pid force then [DeinitPlugin c pid] else [])
       @ (if backgroundSignal E c pid force \<and> throws E (trace w) (DeinitPlugin c pid)
          then [] else [StopPluginIfNeeded c pid])"
  by (rule emittedBy_eq)
     (simp add: stopPlugin_def andThen_def call_def ret_def backgroundSignal_def)

subsection \<open>Order of the calls in a prefix of a plan\<close>

text \<open>A prefix of a list that has no start call before a stop call has none either.\<close>

lemma split_order:
  assumes new: "new = before @ after"
    and b: "\<forall>e\<in>set before. \<not> isStartCall e"
    and a: "\<forall>e\<in>set after. \<not> isStopCall e"
    and ij: "i < j" "j < length new" and st: "isStartCall (new ! i)"
  shows "\<not> isStopCall (new ! j)"
proof -
  have "\<not> i < length before"
    using b st new by (auto simp: nth_append)
  with ij have "\<not> j < length before" by simp
  with ij new have "new ! j \<in> set after"
    by (auto simp: nth_append)
  with a show ?thesis by blast
qed

lemma prefix_split:
  assumes "prefix new (xs @ ys)"
  shows "\<exists>before after. new = before @ after \<and> set before \<subseteq> set xs \<and> set after \<subseteq> set ys"
proof -
  from assms have "prefix new xs \<or> (\<exists>us. new = xs @ us \<and> prefix us ys)"
    by (simp add: prefix_append)
  then show ?thesis
  proof
    assume "prefix new xs"
    then have "new = new @ [] \<and> set new \<subseteq> set xs \<and> set [] \<subseteq> set ys"
      by (auto dest: set_mono_prefix)
    then show ?thesis by blast
  next
    assume "\<exists>us. new = xs @ us \<and> prefix us ys"
    then obtain us where "new = xs @ us" "prefix us ys" by blast
    then have "new = xs @ us \<and> set xs \<subseteq> set xs \<and> set us \<subseteq> set ys"
      by (auto dest: set_mono_prefix)
    then show ?thesis by blast
  qed
qed

lemma prefix_reaches:
  assumes "prefix new (xs @ ys)" and "e \<in> set new" and "e \<notin> set xs"
  shows "set xs \<subseteq> set new"
proof -
  from assms(1) have "prefix new xs \<or> (\<exists>us. new = xs @ us \<and> prefix us ys)"
    by (simp add: prefix_append)
  then show ?thesis
  proof
    assume "prefix new xs"
    with assms(2,3) show ?thesis by (auto dest: set_mono_prefix)
  next
    assume "\<exists>us. new = xs @ us \<and> prefix us ys"
    then show ?thesis by auto
  qed
qed

lemma stopEvents_no_start: "\<forall>e\<in>set (stopEvents E c pid force). \<not> isStartCall e"
  by (simp add: stopEvents_def)

lemma startEvents_no_stop: "\<forall>e\<in>set (startEvents E c p force). \<not> isStopCall e"
  by (simp add: startEvents_def)

lemma enableEvents_no_start: "\<forall>e\<in>set (enableEvents E plugin enable s). \<not> isStartCall e"
  by (cases "enableTarget E enable s") (simp_all add: enableEvents_def)

lemma previousUnloadEvents_no_stop: "\<forall>e\<in>set (previousUnloadEvents pv). \<not> isStopCall e"
  by (cases pv) (simp_all add: previousUnloadEvents_def unloadEvents_def)

lemma stop_in_stopEvents: "StopPluginIfNeeded c pid \<in> set (stopEvents E c pid force)"
  by (simp add: stopEvents_def)

lemma updateClientPlugin_emitted:
  "emittedBy (updateClientPlugin E plugin enable) w =
     emitted E (trace w) (updateClientPluginPlan E plugin enable (store w))"
  by (rule emittedBy_eq) (simp add: updateClientPlugin_exec execThen_trace)

lemma updateDevicePlugin_emitted:
  "emittedBy (updateDevicePlugin E plugin enable) w =
     emitted E (trace w) (updateDevicePluginPlan plugin enable (store w))"
  by (rule emittedBy_eq) (simp add: updateDevicePlugin_exec exec_trace)

lemma switchClientPlugin_emitted:
  "resolveApp E selectedApp (store w) = Some app \<Longrightarrow>
   emittedBy (switchClientPlugin E plugin selectedApp) w =
     emitted E (trace w) (switchClientPluginPlan E plugin app (store w))"
  by (rule emittedBy_eq) (simp add: switchClientPlugin_exec execThen_trace)

lemma switchDevicePlugin_emitted:
  "emittedBy (switchDevicePlugin E plugin) w =
     emitted E (trace w) (switchDevicePluginPlan plugin (store w))"
  by (rule emittedBy_eq) (simp add: switchDevicePlugin_exec exec_trace)

lemma emitted_noThrow: "noThrow E \<Longrightarrow> emitted E tr es = es"
  by (simp add: emitted_completes noThrow_completes)

lemma in_concat_map: "x \<in> set xs \<Longrightarrow> e \<in> set (f x) \<Longrightarrow> e \<in> set (concat (map f xs))"
  by auto

subsection \<open>The concrete environments\<close>

lemma enabledFor_testStore:
  "enabledFor testStore ''TestApp'' ''TestPlugin'' = Inr False"
  "enabledFor testStore ''OtherApp'' ''TestPlugin'' = Inr True"
  by (simp_all add: enabledFor_def testStore_def objectPrototypeProperties_def)

lemma selected_testStore:
  "deconstructClientId_app E = takeWhile (\<lambda>c. c \<noteq> CHR ''#'') \<Longrightarrow>
   getSelectedAppName E testStore = Some ''TestApp''"
  "deconstructClientId_app E = takeWhile (\<lambda>c. c \<noteq> CHR ''#'') \<Longrightarrow>
   getSelectedAppName E ctorStore = Some ''TestApp''"
  by (simp_all add: getSelectedAppName_def truthy_def testStore_def ctorStore_def)

lemma enableTarget_testStore:
  "deconstructClientId_app E = takeWhile (\<lambda>c. c \<noteq> CHR ''#'') \<Longrightarrow>
   enableTarget E True testStore = Some ''TestApp''"
  "deconstructClientId_app E = takeWhile (\<lambda>c. c \<noteq> CHR ''#'') \<Longrightarrow>
   enableTarget E True ctorStore = Some ''TestApp''"
  by (simp_all add: enableTarget_def selected_testStore truthy_def)

lemma passClients_enable_testStore:
  assumes "deconstructClientId_app E = takeWhile (\<lambda>c. c \<noteq> CHR ''#'')"
  shows "passClients E nextPlugin True testStore = Inr [appClient, otherClient]"
  unfolding passClients_def afterEnable_def enableTarget_testStore(1) [OF assms]
  by (simp add: clientsWithEnabledPlugin_def testStore_def supportsPlugin_def enabledFor_def
        appClient_def otherClient_def nextPlugin_def objectPrototypeProperties_def)

lemma passClients_enable_ctorStore:
  assumes "deconstructClientId_app E = takeWhile (\<lambda>c. c \<noteq> CHR ''#'')"
  shows "passClients E nextPlugin True ctorStore = Inl TypeError"
  unfolding passClients_def afterEnable_def enableTarget_testStore(2) [OF assms]
  by (simp add: clientsWithEnabledPlugin_def testStore_def ctorStore_def supportsPlugin_def
        enabledFor_def appClient_def ctorClient_def nextPlugin_def
        objectPrototypeProperties_def)

lemma enableEvents_testStore:
  assumes "deconstructClientId_app E = takeWhile (\<lambda>c. c \<noteq> CHR ''#'')"
  shows "enableEvents E nextPlugin True testStore =
           [Dispatch (SetPluginEnabled ''TestPlugin'' ''TestApp'')]"
    and "enableEvents E nextPlugin True ctorStore =
           [Dispatch (SetPluginEnabled ''TestPlugin'' ''TestApp'')]"
  by (simp_all add: enableEvents_def enableTarget_testStore [OF assms] nextPlugin_def)

lemma env_deconstruct:
  "deconstructClientId_app quietEnv = takeWhile (\<lambda>c. c \<noteq> CHR ''#'')"
  "deconstructClientId_app stopThrowsEnv = takeWhile (\<lambda>c. c \<noteq> CHR ''#'')"
  "deconstructClientId_app startThrowsEnv = takeWhile (\<lambda>c. c \<noteq> CHR ''#'')"
  by (simp_all add: quietEnv_def stopThrowsEnv_def startThrowsEnv_def)

lemma previousUnload_testStore:
  "previousUnloadEvents (clientPlugins testStore ''TestPlugin'') = [UnloadModule ''./test/index.js'']"
  "previousUnloadEvents (clientPlugins ctorStore ''TestPlugin'') = [UnloadModule ''./test/index.js'']"
  by (simp_all add: previousUnloadEvents_def unloadEvents_def testStore_def ctorStore_def
        testPlugin_def testDetails_def)

lemma passClients_testStore:
  "passClients E nextPlugin False testStore = Inr [otherClient]"
  by (simp add: passClients_def afterEnable_def enableTarget_def clientsWithEnabledPlugin_def
        testStore_def supportsPlugin_def enabledFor_def appClient_def otherClient_def
        nextPlugin_def objectPrototypeProperties_def)

lemma quietEnv_throws [simp]: "throws quietEnv tr e = False"
  by (simp add: quietEnv_def)

lemma quietEnv_noThrow: "noThrow quietEnv"
  by (simp add: noThrow_def)

lemma quietEnv_background [simp]:
  "backgroundSignal quietEnv appClient ''TestPlugin'' b"
  "\<not> backgroundSignal quietEnv otherClient ''TestPlugin'' b"
  by (simp_all add: backgroundSignal_def isBackgroundPlugin_def otherClient_def appClient_def
        quietEnv_def)

subsection \<open>More on the order of calls\<close>

lemma ordered_split:
  assumes new: "new = before @ after"
    and b: "\<forall>e\<in>set before. \<not> P e"
    and a: "\<forall>e\<in>set after. Q e"
    and ij: "i < j" "j < length new" and st: "P (new ! i)"
  shows "Q (new ! j)"
proof -
  have "\<not> i < length before"
    using b st new by (auto simp: nth_append)
  with ij have "\<not> j < length before" by simp
  with ij new have "new ! j \<in> set after"
    by (auto simp: nth_append)
  with a show ?thesis by blast
qed

lemma prefix_ordered:
  assumes p: "prefix new (xs @ ys)"
    and b: "\<forall>e\<in>set xs. \<not> P e"
    and a: "\<forall>e\<in>set ys. Q e"
    and ij: "i < j" "j < length new" and st: "P (new ! i)"
  shows "Q (new ! j)"
proof -
  from prefix_split [OF p] obtain before after
    where sp: "new = before @ after" "set before \<subseteq> set xs" "set after \<subseteq> set ys"
    by blast
  have b': "\<forall>e\<in>set before. \<not> P e" using sp(2) b by blast
  have a': "\<forall>e\<in>set after. Q e" using sp(3) a by blast
  show ?thesis
    by (rule ordered_split [of new before after P Q i j, OF sp(1) b' a' ij st])
qed

subsection \<open>Module unloads\<close>

lemma set_emitted: "set (emitted E tr es) \<subseteq> set es"
  using emitted_prefix [of E tr es] by (rule set_mono_prefix)

lemma uninstallPlugin_emitted:
  "emittedBy (uninstallPlugin E plugin) w =
     emitted E (trace w) (uninstallPluginPlan E plugin (store w))
       @ (if completes E (trace w) (uninstallPluginPlan E plugin (store w)) then []
          else uninstallFailureEvents plugin)"
  by (rule emittedBy_eq) (rule uninstallPlugin_trace)

lemma loadPlugin_emitted:
  "emittedBy (loadPlugin E plugin enable notifyIfFailed) w =
     emitted E (trace w) (loadPluginPlan E plugin enable (store w))
       @ (if completes E (trace w) (loadPluginPlan E plugin enable (store w))
             \<and> updatePluginFailure E (requirePlugin E plugin) enable (store w) = None
          then []
          else loadFailureEvents plugin notifyIfFailed)"
  by (rule emittedBy_eq) (rule loadPlugin_trace)

lemma unload_in_unloadEvents:
  "UnloadModule x \<in> set (unloadEvents d) \<Longrightarrow> \<not> details_isBundled d \<and> x = details_entry d"
  by (simp add: unloadEvents_def split: if_splits)

lemma unload_in_previousUnloadEvents:
  "UnloadModule x \<in> set (previousUnloadEvents pv) \<Longrightarrow>
   \<exists>prev. pv = Some prev \<and> \<not> details_isBundled (plugin_details prev)
      \<and> x = details_entry (plugin_details prev)"
  by (cases pv) (auto simp: previousUnloadEvents_def dest: unload_in_unloadEvents)

lemma unload_not_stop: "UnloadModule x \<notin> set (stopEvents E c pid force)"
  by (simp add: stopEvents_def)

lemma unload_not_start: "UnloadModule x \<notin> set (startEvents E c p force)"
  by (simp add: startEvents_def)

lemma unload_in_uninstallPlan:
  "UnloadModule x \<in> set (uninstallPluginPlan E plugin s) \<Longrightarrow>
   \<not> details_isBundled (plugin_details plugin) \<and> x = details_entry (plugin_details plugin)"
  by (auto simp: uninstallPluginPlan_def unload_not_stop dest: unload_in_unloadEvents)

lemma unload_in_updateClientPlan:
  "UnloadModule x \<in> set (updateClientPluginPlan E plugin enable s) \<Longrightarrow>
   \<exists>prev. clientPlugins s (plugin_id plugin) = Some prev
      \<and> \<not> details_isBundled (plugin_details prev) \<and> x = details_entry (plugin_details prev)"
proof -
  assume "UnloadModule x \<in> set (updateClientPluginPlan E plugin enable s)"
  moreover have "UnloadModule x \<notin> set (enableEvents E plugin enable s)"
    by (cases "enableTarget E enable s") (simp_all add: enableEvents_def)
  ultimately have "UnloadModule x \<in> set (previousUnloadEvents (clientPlugins s (plugin_id plugin)))"
    by (auto simp: updateClientPluginPlan_def swapEvents_def unload_not_stop unload_not_start
             split: sum.splits)
  then show ?thesis by (rule unload_in_previousUnloadEvents)
qed

lemma unload_in_updateDevicePlan:
  "UnloadModule x \<in> set (updateDevicePluginPlan plugin enable s) \<Longrightarrow>
   \<exists>prev. devicePlugins s (plugin_id plugin) = Some prev
      \<and> \<not> details_isBundled (plugin_details prev) \<and> x = details_entry (plugin_details prev)"
proof -
  assume "UnloadModule x \<in> set (updateDevicePluginPlan plugin enable s)"
  then have "UnloadModule x \<in> set (previousUnloadEvents (devicePlugins s (plugin_id plugin)))"
    by (auto simp: updateDevicePluginPlan_def Let_def split: if_splits)
  then show ?thesis by (rule unload_in_previousUnloadEvents)
qed

subsection \<open>The command loop\<close>

lemma quietlyI:
  "(\<And>w. \<exists>es. trace (snd (m w)) = trace w @ es \<and> (\<forall>e\<in>set es. \<not> isProcessed e)) \<Longrightarrow> quietly m"
  by (simp add: quietly_def)

lemma quietly_exec:
  assumes "\<And>w. m w = execThen E (plan w) (failure w) w"
    and "\<And>w. \<forall>e\<in>set (plan w). \<not> isProcessed e"
  shows "quietly m"
proof (rule quietlyI)
  fix w
  have "trace (snd (m w)) = trace w @ emitted E (trace w) (plan w)"
    by (simp add: assms(1) execThen_trace)
  moreover have "\<forall>e\<in>set (emitted E (trace w) (plan w)). \<not> isProcessed e"
    using assms(2) [of w] set_emitted [of E "trace w" "plan w"] by blast
  ultimately show "\<exists>es. trace (snd (m w)) = trace w @ es \<and> (\<forall>e\<in>set es. \<not> isProcessed e)"
    by blast
qed

lemma stopEvents_quiet: "\<forall>e\<in>set (stopEvents E c pid force). \<not> isProcessed e"
  by (simp add: stopEvents_def)

lemma startEvents_quiet: "\<forall>e\<in>set (startEvents E c p force). \<not> isProcessed e"
  by (simp add: startEvents_def)

lemma previousUnloadEvents_quiet: "\<forall>e\<in>set (previousUnloadEvents pv). \<not> isProcessed e"
  by (cases pv) (simp_all add: previousUnloadEvents_def unloadEvents_def)

lemma enableEvents_quiet: "\<forall>e\<in>set (enableEvents E plugin enable s). \<not> isProcessed e"
  by (cases "enableTarget E enable s") (simp_all add: enableEvents_def)

lemma updateClientPluginPlan_quiet:
  "\<forall>e\<in>set (updateClientPluginPlan E plugin enable s). \<not> isProcessed e"
  using stopEvents_quiet startEvents_quiet previousUnloadEvents_quiet enableEvents_quiet
  by (auto simp: updateClientPluginPlan_def swapEvents_def split: sum.splits)

lemma updateDevicePluginPlan_quiet:
  "\<forall>e\<in>set (updateDevicePluginPlan plugin enable s). \<not> isProcessed e"
  using previousUnloadEvents_quiet
  by (auto simp: updateDevicePluginPlan_def Let_def split: if_splits)

lemma updatePluginPlan_quiet:
  "\<forall>e\<in>set (updatePluginPlan E plugin enable s). \<not> isProcessed e"
  using updateClientPluginPlan_quiet updateDevicePluginPlan_quiet
  by (simp add: updatePluginPlan_def)

lemma switchClientPluginPlan_quiet:
  "\<forall>e\<in>set (switchClientPluginPlan E plugin app s). \<not> isProcessed e"
  using stopEvents_quiet startEvents_quiet
  by (auto simp: switchClientPluginPlan_def toggleEvents_def split: if_splits sum.splits)

lemma switchDevicePluginPlan_quiet:
  "\<forall>e\<in>set (switchDevicePluginPlan plugin s). \<not> isProcessed e"
  by (auto simp: switchDevicePluginPlan_def Let_def split: if_splits)

lemma uninstallPluginPlan_quiet:
  "\<forall>e\<in>set (uninstallPluginPlan E plugin s). \<not> isProcessed e"
  using stopEvents_quiet
  by (auto simp: uninstallPluginPlan_def unloadEvents_def split: if_splits)

lemma quietly_updatePlugin: "quietly (updatePlugin E plugin enable)"
  by (rule quietly_exec [of _ E "\<lambda>w. updatePluginPlan E plugin enable (store w)"
        "\<lambda>w. updatePluginFailure E plugin enable (store w)"])
     (simp_all add: updatePlugin_exec updatePluginPlan_quiet)

lemma quietly_switchPlugin: "quietly (switchPlugin E plugin selectedApp)"
proof (cases "plugin_isDevicePlugin plugin")
  case True
  show ?thesis
    by (rule quietly_exec [of _ E "\<lambda>w. switchDevicePluginPlan plugin (store w)" "\<lambda>w. None"])
       (simp_all add: switchPlugin_def True switchDevicePlugin_exec switchDevicePluginPlan_quiet)
next
  case False
  let ?plan = "\<lambda>w. case resolveApp E selectedApp (store w) of
            None \<Rightarrow> [] | Some app \<Rightarrow> switchClientPluginPlan E plugin app (store w)"
  let ?failure = "\<lambda>w. case resolveApp E selectedApp (store w) of
            None \<Rightarrow> None | Some app \<Rightarrow> switchClientPluginFailure plugin app (store w)"
  have run: "switchPlugin E plugin selectedApp w = execThen E (?plan w) (?failure w) w" for w
    by (cases "resolveApp E selectedApp (store w)")
       (simp_all add: switchPlugin_def False switchClientPlugin_exec ret_def)
  have quiet: "\<forall>e\<in>set (?plan w). \<not> isProcessed e" for w
    by (cases "resolveApp E selectedApp (store w)")
       (simp_all add: switchClientPluginPlan_quiet)
  show ?thesis
    by (rule quietly_exec [of _ E ?plan ?failure, OF run quiet])
qed

lemma quietly_loadPlugin: "quietly (loadPlugin E plugin enable notifyIfFailed)"
proof (rule quietlyI)
  fix w :: World
  let ?es = "emitted E (trace w) (loadPluginPlan E plugin enable (store w))
       @ (if completes E (trace w) (loadPluginPlan E plugin enable (store w))
             \<and> updatePluginFailure E (requirePlugin E plugin) enable (store w) = None
          then []
          else loadFailureEvents plugin notifyIfFailed)"
  have "\<forall>e\<in>set (loadPluginPlan E plugin enable (store w)). \<not> isProcessed e"
    using updatePluginPlan_quiet by (simp add: loadPluginPlan_def)
  then have "\<forall>e\<in>set ?es. \<not> isProcessed e"
    using set_emitted [of E "trace w" "loadPluginPlan E plugin enable (store w)"]
    by (auto simp: loadFailureEvents_def split: if_splits)
  then show "\<exists>es. trace (snd (loadPlugin E plugin enable notifyIfFailed w)) = trace w @ es
      \<and> (\<forall>e\<in>set es. \<not> isProcessed e)"
    using loadPlugin_trace [of E plugin enable notifyIfFailed w] by blast
qed

lemma quietly_uninstallPlugin: "quietly (uninstallPlugin E plugin)"
proof (rule quietlyI)
  fix w :: World
  let ?es = "emitted E (trace w) (uninstallPluginPlan E plugin (store w))
       @ (if completes E (trace w) (uninstallPluginPlan E plugin (store w)) then []
          else uninstallFailureEvents plugin)"
  have "\<forall>e\<in>set ?es. \<not> isProcessed e"
    using set_emitted [of E "trace w" "uninstallPluginPlan E plugin (store w)"]
      uninstallPluginPlan_quiet [of E plugin "store w"]
    by (auto simp: uninstallFailureEvents_def split: if_splits)
  then show "\<exists>es. trace (snd (uninstallPlugin E plugin w)) = trace w @ es
      \<and> (\<forall>e\<in>set es. \<not> isProcessed e)"
    using uninstallPlugin_trace [of E plugin w] by blast
qed

lemma quietly_handleCommand: "quietly (handleCommand E c)"
proof (cases c)
  case (UNKNOWN_COMMAND t)
  then show ?thesis by (simp add: quietly_def sink_def)
qed (simp_all add: quietly_loadPlugin quietly_uninstallPlugin quietly_updatePlugin
       quietly_switchPlugin)

lemma processCommand_eq:
  "processCommand E c w =
     (case handleCommand E c w of
        (Inl x, w') \<Rightarrow> (Inr (), w'\<lparr>trace := trace w' @ [ConsoleError ''Failed to process command'']\<rparr>)
      | (Inr v, w') \<Rightarrow> (Inr v, w'))"
  unfolding processCommand_def tryCatch_def sink_def ..

lemma processCommand_result: "fst (processCommand E c w) = Inr ()"
  by (simp add: processCommand_eq split: prod.splits sum.splits)

lemma quietly_processCommand: "quietly (processCommand E c)"
proof (rule quietlyI)
  fix w
  from quietly_handleCommand [of E c] obtain es
    where es: "trace (snd (handleCommand E c w)) = trace w @ es" "\<forall>e\<in>set es. \<not> isProcessed e"
    unfolding quietly_def by blast
  show "\<exists>es. trace (snd (processCommand E c w)) = trace w @ es \<and> (\<forall>e\<in>set es. \<not> isProcessed e)"
  proof (cases "handleCommand E c w")
    case (Pair r w')
    with es show ?thesis
      by (cases r) (auto simp: processCommand_eq)
  qed
qed

lemma forEach_processCommand_result: "fst (forEach (processCommand E) queue w) = Inr ()"
proof (induction queue arbitrary: w)
  case Nil
  then show ?case by simp
next
  case (Cons c queue)
  obtain w' where "processCommand E c w = (Inr (), w')"
    using processCommand_result [of E c w] by (cases "processCommand E c w") auto
  with Cons.IH [of w'] show ?case by simp
qed

lemma quietly_forEach_processCommand: "quietly (forEach (processCommand E) queue)"
proof (induction queue)
  case Nil
  then show ?case by (simp add: quietly_def)
next
  case (Cons c queue)
  show ?case
  proof (rule quietlyI)
    fix w
    obtain w' where p: "processCommand E c w = (Inr (), w')"
      using processCommand_result [of E c w] by (cases "processCommand E c w") auto
    from quietly_processCommand [of E c] p obtain es
      where es: "trace w' = trace w @ es" "\<forall>e\<in>set es. \<not> isProcessed e"
      unfolding quietly_def by (metis snd_conv)
    from Cons.IH obtain es'
      where es': "trace (snd (forEach (processCommand E) queue w')) = trace w' @ es'"
        "\<forall>e\<in>set es'. \<not> isProcessed e"
      unfolding quietly_def by blast
    from p es es' have "trace (snd (forEach (processCommand E) (c # queue) w)) = trace w @ es @ es'
        \<and> (\<forall>e\<in>set (es @ es'). \<not> isProcessed e)"
      by auto
    then show "\<exists>es. trace (snd (forEach (processCommand E) (c # queue) w)) = trace w @ es
        \<and> (\<forall>e\<in>set es. \<not> isProcessed e)"
      by blast
  qed
qed

lemma forEach_append: "forEach f (xs @ ys) = andThen (forEach f xs) (\<lambda>_. forEach f ys)"
  by (induction xs) (simp_all add: forEach_Nil forEach_andThen andThen_assoc del: forEach.simps)

lemma forEach_processCommand_step:
  assumes "i < length queue"
  shows "snd (forEach (processCommand E) (take (Suc i) queue) w) =
           snd (processCommand E (queue ! i) (snd (forEach (processCommand E) (take i queue) w)))"
proof -
  obtain w' where a: "forEach (processCommand E) (take i queue) w = (Inr (), w')"
    using forEach_processCommand_result [of E "take i queue" w]
    by (cases "forEach (processCommand E) (take i queue) w") auto
  obtain w'' where b: "processCommand E (queue ! i) w' = (Inr (), w'')"
    using processCommand_result [of E "queue ! i" w']
    by (cases "processCommand E (queue ! i) w'") auto
  from assms have "take (Suc i) queue = take i queue @ [queue ! i]"
    by (rule take_Suc_conv_app_nth)
  then show ?thesis
    using a b by (simp add: forEach_append andThen_def)
qed

lemma processPluginCommandsQueue_eq:
  "processPluginCommandsQueue E queue w =
     dispatch E (PluginCommandsProcessed (length queue))
       (snd (forEach (processCommand E) queue w))"
proof -
  obtain w' where "forEach (processCommand E) queue w = (Inr (), w')"
    using forEach_processCommand_result [of E queue w]
    by (cases "forEach (processCommand E) queue w") auto
  then show ?thesis
    by (simp add: processPluginCommandsQueue_def andThen_def)
qed

lemma processPluginCommandsQueue_processed:
  "filter isProcessed (emittedBy (processPluginCommandsQueue E queue) w) =
     [Dispatch (PluginCommandsProcessed (length queue))]"
proof -
  from quietly_forEach_processCommand [of E queue] obtain es
    where es: "trace (snd (forEach (processCommand E) queue w)) = trace w @ es"
      "\<forall>e\<in>set es. \<not> isProcessed e"
    unfolding quietly_def by blast
  have "trace (snd (processPluginCommandsQueue E queue w)) =
      trace w @ es @ [Dispatch (PluginCommandsProcessed (length queue))]"
    using es(1) by (simp add: processPluginCommandsQueue_eq dispatch_def)
  then have "emittedBy (processPluginCommandsQueue E queue) w =
      es @ [Dispatch (PluginCommandsProcessed (length queue))]"
    by (rule emittedBy_eq)
  with es(2) show ?thesis by simp
qed

lemma stopThrowsEnv_throws [simp]:
  "throws stopThrowsEnv tr e = (case e of StopPluginIfNeeded c p \<Rightarrow> True | _ \<Rightarrow> False)"
  by (simp add: stopThrowsEnv_def)

lemma stopThrowsEnv_background [simp]:
  "backgroundSignal stopThrowsEnv appClient ''TestPlugin'' b"
  "\<not> backgroundSignal stopThrowsEnv otherClient ''TestPlugin'' b"
  by (simp_all add: backgroundSignal_def isBackgroundPlugin_def otherClient_def appClient_def
        stopThrowsEnv_def)

lemma startThrowsEnv_throws [simp]:
  "throws startThrowsEnv tr e =
     (case e of StartPluginIfNeeded c p b \<Rightarrow> True | LoadDevicePlugin d p \<Rightarrow> True | _ \<Rightarrow> False)"
  by (simp add: startThrowsEnv_def)

lemma startThrowsEnv_background [simp]:
  "backgroundSignal startThrowsEnv appClient ''TestPlugin'' b"
  "\<not> backgroundSignal startThrowsEnv otherClient ''TestPlugin'' b"
  by (simp_all add: backgroundSignal_def isBackgroundPlugin_def otherClient_def appClient_def
        startThrowsEnv_def)

lemma testQueue_first_handler:
  "updatePlugin stopThrowsEnv nextPlugin False testWorld =
     (Inl (Thrown (StopPluginIfNeeded otherClient ''TestPlugin'')),
      \<lparr>store = testStore, trace = [StopPluginIfNeeded otherClient ''TestPlugin'']\<rparr>)"
proof -
  have pid: "plugin_id nextPlugin = ''TestPlugin''" "\<not> plugin_isDevicePlugin nextPlugin"
    by (simp_all add: nextPlugin_def)
  have plan: "updatePluginPlan stopThrowsEnv nextPlugin False testStore =
      StopPluginIfNeeded otherClient ''TestPlugin''
        # StartPluginIfNeeded otherClient nextPlugin True
        # Dispatch (PluginLoaded nextPlugin)
        # previousUnloadEvents (clientPlugins testStore ''TestPlugin'')"
    using pid by (simp add: updatePluginPlan_def updateClientPluginPlan_def passClients_testStore
          swapEvents_def enableEvents_def enableTarget_def stopEvents_def startEvents_def)
  show ?thesis
    by (simp add: updatePlugin_exec testWorld_def plan execThen_Cons andThen_def call_def)
qed

lemma testQueue_first:
  "processCommand stopThrowsEnv (UPDATE_PLUGIN nextPlugin False) testWorld =
     (Inr (), \<lparr>store = testStore,
               trace = [StopPluginIfNeeded otherClient ''TestPlugin'',
                        ConsoleError ''Failed to process command'']\<rparr>)"
  by (simp add: processCommand_eq testQueue_first_handler)

lemma testQueue_third:
  "processCommand stopThrowsEnv (SWITCH_PLUGIN testPlugin None) \<lparr>store = testStore, trace = tr\<rparr> =
     (Inr (), \<lparr>store = reducer (SetPluginEnabled ''TestPlugin'' ''TestApp'') testStore,
               trace = tr @ [StartPluginIfNeeded appClient testPlugin True,
                             InitPlugin appClient ''TestPlugin'',
                             Dispatch (SetPluginEnabled ''TestPlugin'' ''TestApp'')]\<rparr>)"
proof -
  have r: "resolveApp stopThrowsEnv None testStore = Some ''TestApp''"
    by (simp add: resolveApp_def getSelectedAppName_def truthy_def testStore_def stopThrowsEnv_def)
  have pid: "plugin_id testPlugin = ''TestPlugin''" "\<not> plugin_isDevicePlugin testPlugin"
    by (simp_all add: testPlugin_def)
  have cs: "getClientsByAppName (clients testStore) ''TestApp'' = [appClient]"
    by (simp add: getClientsByAppName_def testStore_def appClient_def otherClient_def)
  have plan: "switchClientPluginPlan stopThrowsEnv testPlugin ''TestApp'' testStore =
      [StartPluginIfNeeded appClient testPlugin True, InitPlugin appClient ''TestPlugin'',
       Dispatch (SetPluginEnabled ''TestPlugin'' ''TestApp'')]"
       "switchClientPluginFailure testPlugin ''TestApp'' testStore = None"
    using pid by (simp_all add: switchClientPluginPlan_def switchClientPluginFailure_def
          toggleEvents_def enabledFor_testStore cs startEvents_def)
  show ?thesis
    using pid(2)
    by (simp add: processCommand_eq switchPlugin_def switchClientPlugin_exec r plan exec_Cons
          andThen_def call_def dispatch_def ret_def pid(1) del: reducer.simps)
qed

subsection \<open>Invariants of the instances of an owner\<close>

lemma connection_append:
  "connection b (hs @ hs') = (case connection b hs of None \<Rightarrow> None | Some b' \<Rightarrow> connection b' hs')"
  by (induction b hs rule: connection.induct) simp_all

lemma liveInstances_append:
  "liveInstances is (hs @ hs') = liveInstances (liveInstances is hs) hs'"
  by (induction "is" hs rule: liveInstances.induct) simp_all

lemma wellFormed_noInstances: "wellFormed noInstances"
  by (simp add: wellFormed_def noInstances_def hooksOf_def connectedAt_def liveAt_def)

lemma wellFormed_connect:
  assumes wf: "wellFormed s"
  shows "wellFormed (connectInstance k s)"
proof (cases "sandyPluginStates s k")
  case None
  with wf show ?thesis by (simp add: connectInstance_def)
next
  case (Some inst)
  show ?thesis
  proof (cases "connected inst")
    case True
    with wf Some show ?thesis by (simp add: connectInstance_def)
  next
    case False
    let ?s = "s\<lparr>sandyPluginStates := (sandyPluginStates s)(k \<mapsto> inst\<lparr>connected := True\<rparr>),
                 hookLog := hookLog s @ [(k, Connected (instanceId inst))]\<rparr>"
    have eq: "connectInstance k s = ?s"
      using Some False by (simp add: connectInstance_def)
    have h: "hooksOf k' ?s = (if k' = k then hooksOf k' s @ [Connected (instanceId inst)]
        else hooksOf k' s)" for k'
      by (simp add: hooksOf_def)
    have c: "connectedAt ?s k' = (if k' = k then True else connectedAt s k')" for k'
      by (simp add: connectedAt_def)
    have l: "liveAt ?s k' = liveAt s k'" for k'
      using Some by (simp add: liveAt_def)
    have ck: "connectedAt s k = False"
      using Some False by (simp add: connectedAt_def)
    from wf Some have b: "instanceId inst < nextInstance s"
      unfolding wellFormed_def by blast
    show ?thesis
      unfolding eq wellFormed_def
      using wf b ck
      by (auto simp: h c l connection_append liveInstances_append wellFormed_def
               simp del: split_paired_All split_paired_Ex)
  qed
qed

lemma wellFormed_disconnect:
  assumes wf: "wellFormed s"
  shows "wellFormed (disconnectInstance k s)"
proof (cases "sandyPluginStates s k")
  case None
  with wf show ?thesis by (simp add: disconnectInstance_def)
next
  case (Some inst)
  show ?thesis
  proof (cases "connected inst")
    case False
    with wf Some show ?thesis by (simp add: disconnectInstance_def)
  next
    case True
    let ?s = "s\<lparr>sandyPluginStates := (sandyPluginStates s)(k \<mapsto> inst\<lparr>connected := False\<rparr>),
                 hookLog := hookLog s @ [(k, Disconnected (instanceId inst))]\<rparr>"
    have eq: "disconnectInstance k s = ?s"
      using Some True by (simp add: disconnectInstance_def)
    have h: "hooksOf k' ?s = (if k' = k then hooksOf k' s @ [Disconnected (instanceId inst)]
        else hooksOf k' s)" for k'
      by (simp add: hooksOf_def)
    have c: "connectedAt ?s k' = (if k' = k then False else connectedAt s k')" for k'
      by (simp add: connectedAt_def)
    have l: "liveAt ?s k' = liveAt s k'" for k'
      using Some by (simp add: liveAt_def)
    have ck: "connectedAt s k = True"
      using Some True by (simp add: connectedAt_def)
    from wf Some have b: "instanceId inst < nextInstance s"
      unfolding wellFormed_def by blast
    show ?thesis
      unfolding eq wellFormed_def
      using wf b ck
      by (auto simp: h c l connection_append liveInstances_append wellFormed_def
               simp del: split_paired_All split_paired_Ex)
  qed
qed

lemma wellFormed_create:
  assumes wf: "wellFormed s" and none: "sandyPluginStates s k = None"
  shows "wellFormed (createInstance k s)"
proof -
  let ?s = "createInstance k s"
  have h: "hooksOf k' ?s = (if k' = k then hooksOf k' s @ [Created (nextInstance s)]
      else hooksOf k' s)" for k'
    by (simp add: hooksOf_def createInstance_def)
  have c: "connectedAt ?s k' = connectedAt s k'" for k'
    using none by (simp add: connectedAt_def createInstance_def)
  have l: "liveAt ?s k' = (if k' = k then [nextInstance s] else liveAt s k')" for k'
    by (simp add: liveAt_def createInstance_def)
  have lk: "liveAt s k = []"
    using none by (simp add: liveAt_def)
  have st: "sandyPluginStates ?s =
      (sandyPluginStates s)(k \<mapsto> \<lparr>instanceId = nextInstance s, connected = False\<rparr>)"
      "nextInstance ?s = Suc (nextInstance s)"
      "hookLog ?s = hookLog s @ [(k, Created (nextInstance s))]"
    by (simp_all add: createInstance_def)
  show ?thesis
    unfolding wellFormed_def
    using wf lk
    by (auto simp: h c l st connection_append liveInstances_append wellFormed_def less_Suc_eq
             simp del: split_paired_All split_paired_Ex)
qed

lemma wellFormed_destroy:
  assumes wf: "wellFormed s" and dis: "\<not> connectedAt s k"
  shows "wellFormed (destroyInstance k s)"
proof (cases "sandyPluginStates s k")
  case None
  with wf show ?thesis by (simp add: destroyInstance_def)
next
  case (Some inst)
  let ?s = "s\<lparr>sandyPluginStates := (sandyPluginStates s)(k := None),
            hookLog := hookLog s @ [(k, Destroyed (instanceId inst))]\<rparr>"
  have eq: "destroyInstance k s = ?s"
    using Some by (simp add: destroyInstance_def)
  have h: "hooksOf k' ?s = (if k' = k then hooksOf k' s @ [Destroyed (instanceId inst)]
      else hooksOf k' s)" for k'
    by (simp add: hooksOf_def)
  have c: "connectedAt ?s k' = (if k' = k then False else connectedAt s k')" for k'
    by (simp add: connectedAt_def)
  have l: "liveAt ?s k' = (if k' = k then [] else liveAt s k')" for k'
    by (simp add: liveAt_def)
  have lk: "liveAt s k = [instanceId inst]"
    using Some by (simp add: liveAt_def)
  from wf Some have b: "instanceId inst < nextInstance s"
    unfolding wellFormed_def by blast
  show ?thesis
    unfolding eq wellFormed_def
    using wf b lk dis
    by (auto simp: h c l connection_append liveInstances_append wellFormed_def
             simp del: split_paired_All split_paired_Ex)
qed

lemma disconnect_disconnected: "\<not> connectedAt (disconnectInstance k s) k"
  by (simp add: disconnectInstance_def connectedAt_def split: option.splits)

lemma wellFormed_start: "wellFormed s \<Longrightarrow> wellFormed (startPluginIfNeeded k s)"
  by (cases "sandyPluginStates s k")
     (simp_all add: startPluginIfNeeded_def wellFormed_connect wellFormed_create)

lemma wellFormed_stop: "wellFormed s \<Longrightarrow> wellFormed (stopPluginIfNeeded k s)"
  by (cases "sandyPluginStates s k")
     (simp_all add: stopPluginIfNeeded_def wellFormed_destroy wellFormed_disconnect
        disconnect_disconnected)

lemma wellFormed_step: "wellFormed s \<Longrightarrow> wellFormed (lifecycleStep op s)"
  by (cases op)
     (simp_all add: wellFormed_start wellFormed_stop wellFormed_connect wellFormed_disconnect)

lemma wellFormed_lifecycle: "wellFormed s \<Longrightarrow> wellFormed (lifecycle ops s)"
  unfolding lifecycle_def
  by (induction ops arbitrary: s) (simp_all add: wellFormed_step)






























lemma stop_removes:
  "sandyPluginStates (stopPluginIfNeeded k s) k = None"
  "nextInstance (stopPluginIfNeeded k s) = nextInstance s"
  "k' \<noteq> k \<Longrightarrow> sandyPluginStates (stopPluginIfNeeded k s) k' = sandyPluginStates s k'"
  by (cases "sandyPluginStates s k";
      simp add: stopPluginIfNeeded_def destroyInstance_def disconnectInstance_def)+





lemma processCommand_grows:
  "\<exists>es. trace (snd (processCommand E c w)) = trace w @ es"
  using quietly_processCommand [of E c] unfolding quietly_def by blast

lemma forEach_processCommand_grows:
  "\<exists>es. trace (snd (forEach (processCommand E) queue w)) = trace w @ es"
  using quietly_forEach_processCommand [of E queue] unfolding quietly_def by blast

lemma emittedBy_forEach_snoc:
  "emittedBy (forEach (processCommand E) (queue @ [c])) w =
     emittedBy (forEach (processCommand E) queue) w
       @ emittedBy (processCommand E c) (snd (forEach (processCommand E) queue w))"
proof -
  obtain w' where a: "forEach (processCommand E) queue w = (Inr (), w')"
    using forEach_processCommand_result [of E queue w]
    by (cases "forEach (processCommand E) queue w") auto
  obtain w'' where b: "processCommand E c w' = (Inr (), w'')"
    using processCommand_result [of E c w'] by (cases "processCommand E c w'") auto
  from forEach_processCommand_grows [of E queue w] a obtain es where es: "trace w' = trace w @ es"
    by auto
  from processCommand_grows [of E c w'] b obtain es' where es': "trace w'' = trace w' @ es'"
    by auto
  have "forEach (processCommand E) (queue @ [c]) w = (Inr (), w'')"
    using a b by (simp add: forEach_append andThen_def)
  with a b es es' show ?thesis
    by (simp add: emittedBy_def)
qed

lemma emittedBy_forEach_processCommand:
  "emittedBy (forEach (processCommand E) queue) w =
     concat (map (\<lambda>i. emittedBy (processCommand E (queue ! i))
                         (snd (forEach (processCommand E) (take i queue) w)))
               [0..<length queue])"
proof (induction queue rule: rev_induct)
  case Nil
  then show ?case by (simp add: emittedBy_def)
next
  case (snoc c queue)
  let ?F = "\<lambda>q i. emittedBy (processCommand E (q ! i))
                    (snd (forEach (processCommand E) (take i q) w))"
  have eq: "map (?F (queue @ [c])) [0..<length queue] = map (?F queue) [0..<length queue]"
    by (rule map_cong) (simp_all add: nth_append)
  have last: "?F (queue @ [c]) (length queue) =
      emittedBy (processCommand E c) (snd (forEach (processCommand E) queue w))"
    by simp
  have "emittedBy (forEach (processCommand E) (queue @ [c])) w =
      concat (map (?F queue) [0..<length queue]) @ ?F (queue @ [c]) (length queue)"
    unfolding last emittedBy_forEach_snoc snoc.IH ..
  also have "\<dots> = concat (map (?F (queue @ [c])) [0..<length queue])
      @ ?F (queue @ [c]) (length queue)"
    unfolding eq ..
  also have "\<dots> = concat (map (?F (queue @ [c])) [0..<length (queue @ [c])])"
    by simp
  finally show ?case .
qed

subsection \<open>The filter of the update runs after the enable dispatch\<close>

lemma enabledFor_SetPluginEnabled:
  "enabledFor (reducer (SetPluginEnabled pid app) s) app pid = Inr True"
  by (simp add: enabledFor_def split: option.splits)

lemma updateClientPlugin_pass_after_enable:
  assumes en: "enable" "getSelectedAppName E (store w) = Some app" "truthy app"
    and cs: "passClients E plugin enable (store w) = Inr cs"
  shows "enableEvents E plugin enable (store w) =
           [Dispatch (SetPluginEnabled (plugin_id plugin) app)]"
    and "\<forall>c\<in>set (clients (store w)).
           query_app c = app \<and> supportsPlugin c (plugin_id plugin) \<longrightarrow> c \<in> set cs"
proof -
  from en have t: "enableTarget E enable (store w) = Some app"
    by (simp add: enableTarget_def)
  then show "enableEvents E plugin enable (store w) =
           [Dispatch (SetPluginEnabled (plugin_id plugin) app)]"
    by (simp add: enableEvents_def)
  from t have ae: "afterEnable E plugin enable (store w) =
      reducer (SetPluginEnabled (plugin_id plugin) app) (store w)"
    by (simp add: afterEnable_def)
  show "\<forall>c\<in>set (clients (store w)).
           query_app c = app \<and> supportsPlugin c (plugin_id plugin) \<longrightarrow> c \<in> set cs"
    unfolding passClients_Inr [OF cs] ae
    using enabledFor_SetPluginEnabled [of "plugin_id plugin" app "store w"]
    by (auto simp del: reducer.simps)
qed

subsection \<open>Old and new instances during a swap\<close>

lemma lifecycle_Nil [simp]: "lifecycle [] s = s"
  by (simp add: lifecycle_def)

lemma lifecycle_Cons: "lifecycle (op # ops) s = lifecycle ops (lifecycleStep op s)"
  by (simp add: lifecycle_def)

lemma lifecycle_append: "lifecycle (xs @ ys) s = lifecycle ys (lifecycle xs s)"
  by (simp add: lifecycle_def)

lemma applyCalls_append: "applyCalls (xs @ ys) s = applyCalls ys (applyCalls xs s)"
  by (simp add: applyCalls_def lifecycle_append)

text \<open>Operations other than a start create nothing.\<close>

lemma keeps_connect:
  "nextInstance (connectInstance k s) = nextInstance s"
  "sandyPluginStates (connectInstance k s) k' = Some inst \<Longrightarrow>
     \<exists>inst0. sandyPluginStates s k' = Some inst0 \<and> instanceId inst0 = instanceId inst"
  by (cases "sandyPluginStates s k"; auto simp: connectInstance_def split: if_splits)+

lemma keeps_disconnect:
  "nextInstance (disconnectInstance k s) = nextInstance s"
  "sandyPluginStates (disconnectInstance k s) k' = Some inst \<Longrightarrow>
     \<exists>inst0. sandyPluginStates s k' = Some inst0 \<and> instanceId inst0 = instanceId inst"
  by (cases "sandyPluginStates s k"; auto simp: disconnectInstance_def split: if_splits)+

lemma keeps_stop:
  "sandyPluginStates (stopPluginIfNeeded k s) k' = Some inst \<Longrightarrow>
     \<exists>inst0. sandyPluginStates s k' = Some inst0 \<and> instanceId inst0 = instanceId inst"
  by (cases "sandyPluginStates s k";
      auto simp: stopPluginIfNeeded_def destroyInstance_def disconnectInstance_def
           split: if_splits)

lemma keeps_step:
  assumes "\<not> isOpStart op"
  shows "nextInstance (lifecycleStep op s) = nextInstance s"
    and "sandyPluginStates (lifecycleStep op s) k = Some inst \<Longrightarrow>
      \<exists>inst0. sandyPluginStates s k = Some inst0 \<and> instanceId inst0 = instanceId inst"
  using assms
  by (cases op; simp add: keeps_connect keeps_disconnect keeps_stop stop_removes(2))+

lemma keeps_lifecycle:
  assumes "\<forall>op\<in>set ops. \<not> isOpStart op"
  shows "nextInstance (lifecycle ops s) = nextInstance s
    \<and> (\<forall>k inst. sandyPluginStates (lifecycle ops s) k = Some inst \<longrightarrow>
          (\<exists>inst0. sandyPluginStates s k = Some inst0 \<and> instanceId inst0 = instanceId inst))"
  using assms
proof (induction ops arbitrary: s)
  case Nil
  then show ?case by simp
next
  case (Cons op ops)
  then have op: "\<not> isOpStart op" and ops: "\<forall>op\<in>set ops. \<not> isOpStart op" by simp_all
  from Cons.IH [OF ops, of "lifecycleStep op s"] keeps_step [OF op, of s]
  show ?case
    unfolding lifecycle_Cons by (metis)
qed

lemma stopped_stays_none:
  assumes "OpStop c p \<in> set ops" and "\<forall>op\<in>set ops. \<not> isOpStart op"
  shows "sandyPluginStates (lifecycle ops s) (c, p) = None"
  using assms
proof (induction ops arbitrary: s)
  case Nil
  then show ?case by simp
next
  case (Cons op ops)
  then have ops: "\<forall>op\<in>set ops. \<not> isOpStart op" by simp
  show ?case
  proof (cases "OpStop c p \<in> set ops")
    case True
    from Cons.IH [OF True ops] show ?thesis by (simp add: lifecycle_Cons)
  next
    case False
    with Cons.prems have op: "op = OpStop c p" by simp
    have none: "sandyPluginStates (lifecycleStep op s) (c, p) = None"
      unfolding op by (simp add: stop_removes(1))
    from keeps_lifecycle [OF ops, of "lifecycleStep op s"]
    have "\<forall>inst. sandyPluginStates (lifecycle ops (lifecycleStep op s)) (c, p) = Some inst \<longrightarrow>
        (\<exists>inst0. sandyPluginStates (lifecycleStep op s) (c, p) = Some inst0
           \<and> instanceId inst0 = instanceId inst)"
      by blast
    with none show ?thesis
      unfolding lifecycle_Cons
      by (cases "sandyPluginStates (lifecycle ops (lifecycleStep op s)) (c, p)") simp_all
  qed
qed

text \<open>A pair without an old instance never gets one.\<close>

lemma freshAt_connect: "freshAt n s k \<Longrightarrow> freshAt n (connectInstance k' s) k"
  by (cases "sandyPluginStates s k'")
     (auto simp: freshAt_def connectInstance_def split: option.splits)

lemma freshAt_disconnect: "freshAt n s k \<Longrightarrow> freshAt n (disconnectInstance k' s) k"
  by (cases "sandyPluginStates s k'")
     (auto simp: freshAt_def disconnectInstance_def split: option.splits)

lemma freshAt_start: "freshAt n s k \<Longrightarrow> freshAt n (startPluginIfNeeded k' s) k"
  by (cases "sandyPluginStates s k'")
     (auto simp: freshAt_def startPluginIfNeeded_def connectInstance_def createInstance_def
           split: option.splits)

lemma freshAt_stop: "freshAt n s k \<Longrightarrow> freshAt n (stopPluginIfNeeded k' s) k"
  by (cases "sandyPluginStates s k'")
     (auto simp: freshAt_def stopPluginIfNeeded_def destroyInstance_def disconnectInstance_def
           split: option.splits)

lemma freshAt_step: "freshAt n s k \<Longrightarrow> freshAt n (lifecycleStep op s) k"
  by (cases op) (simp_all add: freshAt_connect freshAt_disconnect freshAt_start freshAt_stop)

lemma freshAt_lifecycle: "freshAt n s k \<Longrightarrow> freshAt n (lifecycle ops s) k"
  by (induction ops arbitrary: s) (simp_all add: lifecycle_Cons freshAt_step)

text \<open>Without a stop, a started pair keeps an instance.\<close>

lemma some_connect:
  "sandyPluginStates s k \<noteq> None \<Longrightarrow> sandyPluginStates (connectInstance k' s) k \<noteq> None"
  by (cases "sandyPluginStates s k'") (auto simp: connectInstance_def)

lemma some_disconnect:
  "sandyPluginStates s k \<noteq> None \<Longrightarrow> sandyPluginStates (disconnectInstance k' s) k \<noteq> None"
  by (cases "sandyPluginStates s k'") (auto simp: disconnectInstance_def)

lemma some_start:
  "sandyPluginStates s k \<noteq> None \<Longrightarrow> sandyPluginStates (startPluginIfNeeded k' s) k \<noteq> None"
  by (cases "sandyPluginStates s k'")
     (auto simp: startPluginIfNeeded_def connectInstance_def createInstance_def)

lemma started_some: "sandyPluginStates (startPluginIfNeeded k s) k \<noteq> None"
  by (cases "sandyPluginStates s k")
     (auto simp: startPluginIfNeeded_def connectInstance_def createInstance_def)

lemma some_step:
  "\<not> isOpStop op \<Longrightarrow> sandyPluginStates s k \<noteq> None \<Longrightarrow>
   sandyPluginStates (lifecycleStep op s) k \<noteq> None"
  by (cases op) (simp_all add: some_connect some_disconnect some_start)

lemma some_lifecycle:
  "\<forall>op\<in>set ops. \<not> isOpStop op \<Longrightarrow> sandyPluginStates s k \<noteq> None \<Longrightarrow>
   sandyPluginStates (lifecycle ops s) k \<noteq> None"
proof (induction ops arbitrary: s)
  case Nil
  then show ?case by simp
next
  case (Cons op ops)
  then have op: "\<not> isOpStop op" and ops: "\<forall>op\<in>set ops. \<not> isOpStop op" by simp_all
  from some_step [OF op Cons.prems(2)] have "sandyPluginStates (lifecycleStep op s) k \<noteq> None" .
  from Cons.IH [OF ops this] show ?case
    unfolding lifecycle_Cons .
qed

lemma started_stays_some:
  assumes "OpStart c p \<in> set ops" and "\<forall>op\<in>set ops. \<not> isOpStop op"
  shows "sandyPluginStates (lifecycle ops s) (c, p) \<noteq> None"
  using assms
proof (induction ops arbitrary: s)
  case Nil
  then show ?case by simp
next
  case (Cons op ops)
  then have ops: "\<forall>op\<in>set ops. \<not> isOpStop op" by simp
  show ?case
  proof (cases "OpStart c p \<in> set ops")
    case True
    from Cons.IH [OF True ops] show ?thesis by (simp add: lifecycle_Cons)
  next
    case False
    with Cons.prems have op: "op = OpStart c p" by simp
    have "sandyPluginStates (lifecycleStep op s) (c, p) \<noteq> None"
      unfolding op by (simp add: started_some)
    with some_lifecycle [OF ops] show ?thesis
      unfolding lifecycle_Cons by blast
  qed
qed

lemma set_ops_mono:
  "set pre \<subseteq> set es \<Longrightarrow> set (concat (map lifecycleOps pre)) \<subseteq> set (concat (map lifecycleOps es))"
  by auto

lemma holdsNew_not_old:
  assumes wf: "wellFormed I"
    and keep: "\<forall>k inst. sandyPluginStates I' k = Some inst \<longrightarrow>
          (\<exists>inst0. sandyPluginStates I k = Some inst0 \<and> instanceId inst0 = instanceId inst)"
  shows "\<not> holdsNew I I' k"
proof (cases "sandyPluginStates I' k")
  case None
  then show ?thesis by (simp add: holdsNew_def)
next
  case (Some inst)
  with keep obtain inst0 where i0: "sandyPluginStates I k = Some inst0"
      "instanceId inst0 = instanceId inst"
    by blast
  with wf have "instanceId inst < nextInstance I"
    unfolding wellFormed_def by fastforce
  with Some show ?thesis by (simp add: holdsNew_def)
qed

lemma freshAt_not_old: "freshAt (nextInstance I) I' k \<Longrightarrow> \<not> holdsOld I I' k"
  by (cases "sandyPluginStates I' k") (simp_all add: freshAt_def holdsOld_def)

lemma stopped_fresh:
  assumes noStart: "\<forall>op\<in>set (concat (map lifecycleOps A)). \<not> isOpStart op"
    and stopped: "OpStop c p \<in> set (concat (map lifecycleOps A))"
  shows "freshAt (nextInstance I) (applyCalls A I) (c, p)"
  using stopped_stays_none [OF stopped noStart, of I] keeps_lifecycle [OF noStart, of I]
  by (simp add: freshAt_def applyCalls_def)

lemma swap_no_overlap:
  assumes wf: "wellFormed I"
    and pre: "prefix pre (A @ B)"
    and noStart: "\<forall>op\<in>set (concat (map lifecycleOps A)). \<not> isOpStart op"
    and stopped: "OpStop c p \<in> set (concat (map lifecycleOps A))"
  shows "\<not> (holdsOld I (applyCalls pre I) (c, p) \<and> holdsNew I (applyCalls pre I) k')"
proof -
  from pre have "prefix pre A \<or> (\<exists>us. pre = A @ us \<and> prefix us B)"
    by (simp add: prefix_append)
  then show ?thesis
  proof
    assume "prefix pre A"
    then have "set pre \<subseteq> set A" by (rule set_mono_prefix)
    then have "\<forall>op\<in>set (concat (map lifecycleOps pre)). \<not> isOpStart op"
      using noStart set_ops_mono [of pre A] by blast
    from keeps_lifecycle [OF this, of I]
    have "\<forall>k inst. sandyPluginStates (applyCalls pre I) k = Some inst \<longrightarrow>
          (\<exists>inst0. sandyPluginStates I k = Some inst0 \<and> instanceId inst0 = instanceId inst)"
      by (simp add: applyCalls_def del: split_paired_All split_paired_Ex)
    from holdsNew_not_old [OF wf this] show ?thesis by blast
  next
    assume "\<exists>us. pre = A @ us \<and> prefix us B"
    then obtain us where us: "pre = A @ us" by blast
    from stopped_fresh [OF noStart stopped]
    have "freshAt (nextInstance I) (applyCalls A I) (c, p)" .
    then have "freshAt (nextInstance I) (applyCalls pre I) (c, p)"
      unfolding us applyCalls_append by (simp add: applyCalls_def freshAt_lifecycle)
    from freshAt_not_old [OF this] show ?thesis by blast
  qed
qed

lemma swap_all_new:
  assumes noStart: "\<forall>op\<in>set (concat (map lifecycleOps A)). \<not> isOpStart op"
    and stopped: "OpStop c p \<in> set (concat (map lifecycleOps A))"
    and noStop: "\<forall>op\<in>set (concat (map lifecycleOps B)). \<not> isOpStop op"
    and started: "OpStart c p \<in> set (concat (map lifecycleOps B))"
  shows "holdsNew I (applyCalls (A @ B) I) (c, p)"
proof -
  let ?I1 = "applyCalls A I"
  from stopped_fresh [OF noStart stopped]
  have "freshAt (nextInstance I) ?I1 (c, p)" .
  then have f: "freshAt (nextInstance I) (applyCalls (A @ B) I) (c, p)"
    unfolding applyCalls_append by (simp add: applyCalls_def freshAt_lifecycle)
  from started_stays_some [OF started noStop, of ?I1]
  have "sandyPluginStates (applyCalls (A @ B) I) (c, p) \<noteq> None"
    unfolding applyCalls_append by (simp add: applyCalls_def)
  with f show ?thesis
    by (cases "sandyPluginStates (applyCalls (A @ B) I) (c, p)")
       (simp_all add: freshAt_def holdsNew_def)
qed

text \<open>The operations of the two passes.\<close>

lemma ops_stopEvents:
  "concat (map lifecycleOps (stopEvents E c pid force)) =
     (if backgroundSignal E c pid force then [OpDisconnect c pid] else []) @ [OpStop c pid]"
  by (simp add: stopEvents_def)

lemma ops_startEvents:
  "concat (map lifecycleOps (startEvents E c p force)) =
     OpStart c (plugin_id p)
       # (if backgroundSignal E c (plugin_id p) force then [OpConnect c (plugin_id p)] else [])"
  by (simp add: startEvents_def)

lemma ops_enableEvents: "concat (map lifecycleOps (enableEvents E plugin enable s)) = []"
  by (cases "enableTarget E enable s") (simp_all add: enableEvents_def)

lemma ops_previousUnloadEvents: "concat (map lifecycleOps (previousUnloadEvents pv)) = []"
  by (cases pv) (simp_all add: previousUnloadEvents_def unloadEvents_def)

lemma ops_concat:
  "concat (map lifecycleOps (concat (map f cs))) = concat (map (\<lambda>c. concat (map lifecycleOps (f c))) cs)"
  by (induction cs) simp_all

lemma stopPass_ops:
  "\<forall>op\<in>set (concat (map lifecycleOps
       (enableEvents E plugin enable s
          @ concat (map (\<lambda>c. stopEvents E c pid False) cs)))). \<not> isOpStart op"
  "c \<in> set cs \<Longrightarrow>
   OpStop c pid \<in> set (concat (map lifecycleOps
       (enableEvents E plugin enable s
          @ concat (map (\<lambda>c. stopEvents E c pid False) cs))))"
  by (auto simp: ops_enableEvents ops_concat ops_stopEvents)

lemma startPass_ops:
  "\<forall>op\<in>set (concat (map lifecycleOps
       (concat (map (\<lambda>c. startEvents E c plugin True) cs)
          @ [Dispatch (PluginLoaded plugin)] @ previousUnloadEvents pv))). \<not> isOpStop op"
  "c \<in> set cs \<Longrightarrow>
   OpStart c (plugin_id plugin) \<in> set (concat (map lifecycleOps
       (concat (map (\<lambda>c. startEvents E c plugin True) cs)
          @ [Dispatch (PluginLoaded plugin)] @ previousUnloadEvents pv)))"
  by (auto simp: ops_previousUnloadEvents ops_concat ops_startEvents)

lemma wellFormed_applyCalls: "wellFormed I \<Longrightarrow> wellFormed (applyCalls es I)"
  by (simp add: applyCalls_def wellFormed_lifecycle)

lemma wellFormed_one_live:
  assumes "wellFormed I"
  shows "length (liveInstances [] (hooksOf k I)) \<le> 1"
proof -
  from assms have "liveInstances [] (hooksOf k I) = liveAt I k"
    unfolding wellFormed_def by blast
  then show ?thesis
    by (simp add: liveAt_def split: option.splits)
qed

subsection \<open>Versions held by a device\<close>

lemma applyDeviceCalls_Nil [simp]: "applyDeviceCalls [] H = H"
  by (simp add: applyDeviceCalls_def)

lemma applyDeviceCalls_Cons: "applyDeviceCalls (e # es) H = applyDeviceCalls es (deviceStep e H)"
  by (simp add: applyDeviceCalls_def)

lemma applyDeviceCalls_append:
  "applyDeviceCalls (xs @ ys) H = applyDeviceCalls ys (applyDeviceCalls xs H)"
  by (simp add: applyDeviceCalls_def)

lemma set_versionsHeld:
  "set (versionsHeld H d pid) = snd ` {h \<in> set H. fst h = d \<and> plugin_id (snd h) = pid}"
  by (auto simp: versionsHeld_def)

lemma distinct_versionsHeld: "distinct (versionsHeld H d pid)"
  by (simp add: versionsHeld_def)

lemma versions_step_other:
  "\<forall>p. e \<noteq> LoadDevicePlugin d p \<Longrightarrow>
   set (versionsHeld (deviceStep e H) d pid) \<subseteq> set (versionsHeld H d pid)"
  by (cases e) (auto simp: set_versionsHeld)

lemma versions_other:
  "\<forall>e\<in>set es. \<forall>p. e \<noteq> LoadDevicePlugin d p \<Longrightarrow>
   set (versionsHeld (applyDeviceCalls es H) d pid) \<subseteq> set (versionsHeld H d pid)"
proof (induction es arbitrary: H)
  case Nil
  then show ?case by simp
next
  case (Cons e es)
  then have e: "\<forall>p. e \<noteq> LoadDevicePlugin d p"
    and es: "\<forall>e\<in>set es. \<forall>p. e \<noteq> LoadDevicePlugin d p"
    by simp_all
  from Cons.IH [OF es, of "deviceStep e H"] versions_step_other [OF e, of H pid]
  show ?case
    unfolding applyDeviceCalls_Cons by blast
qed

lemma notLoad_other: "\<not> isLoadCall e \<Longrightarrow> \<forall>p. e \<noteq> LoadDevicePlugin d p"
  by (cases e) simp_all

lemma versions_unloaded:
  assumes "UnloadDevicePlugin d pid \<in> set es" and "\<forall>e\<in>set es. \<not> isLoadCall e"
  shows "versionsHeld (applyDeviceCalls es H) d pid = []"
  using assms
proof (induction es arbitrary: H)
  case Nil
  then show ?case by simp
next
  case (Cons e es)
  then have es: "\<forall>e\<in>set es. \<not> isLoadCall e" by simp
  show ?case
  proof (cases "UnloadDevicePlugin d pid \<in> set es")
    case True
    from Cons.IH [OF True es] show ?thesis by (simp add: applyDeviceCalls_Cons)
  next
    case False
    with Cons.prems have e: "e = UnloadDevicePlugin d pid" by simp
    have "set (versionsHeld (deviceStep e H) d pid) = {}"
      unfolding e by (auto simp: set_versionsHeld)
    moreover from es have "\<forall>e\<in>set es. \<forall>p. e \<noteq> LoadDevicePlugin d p"
      using notLoad_other by blast
    from versions_other [OF this, of "deviceStep e H" pid]
    have "set (versionsHeld (applyDeviceCalls es (deviceStep e H)) d pid)
        \<subseteq> set (versionsHeld (deviceStep e H) d pid)" .
    ultimately show ?thesis
      unfolding applyDeviceCalls_Cons by simp
  qed
qed

lemma versions_loads:
  "\<forall>e\<in>set us. \<exists>d'. e = LoadDevicePlugin d' plugin \<Longrightarrow>
   set (versionsHeld (applyDeviceCalls us H) d pid) \<subseteq> set (versionsHeld H d pid) \<union> {plugin}"
proof (induction us arbitrary: H)
  case Nil
  then show ?case by auto
next
  case (Cons e us)
  then obtain d' where e: "e = LoadDevicePlugin d' plugin"
    and us: "\<forall>e\<in>set us. \<exists>d'. e = LoadDevicePlugin d' plugin"
    by auto
  have "set (versionsHeld (deviceStep e H) d pid) \<subseteq> set (versionsHeld H d pid) \<union> {plugin}"
    unfolding e set_versionsHeld by auto
  with Cons.IH [OF us, of "deviceStep e H"] show ?case
    unfolding applyDeviceCalls_Cons by blast
qed

lemma versions_loaded:
  assumes "LoadDevicePlugin d plugin \<in> set us" and "\<forall>e\<in>set us. isLoadCall e"
  shows "plugin \<in> set (versionsHeld (applyDeviceCalls us H) d (plugin_id plugin))"
  using assms
proof (induction us arbitrary: H rule: rev_induct)
  case Nil
  then show ?case by simp
next
  case (snoc e us)
  then have e: "isLoadCall e" by simp
  then obtain d' p where ep: "e = LoadDevicePlugin d' p"
    by (cases e) simp_all
  show ?case
  proof (cases "e = LoadDevicePlugin d plugin")
    case True
    then show ?thesis
      by (simp add: applyDeviceCalls_append applyDeviceCalls_Cons set_versionsHeld image_iff)
  next
    case False
    with snoc.prems have "LoadDevicePlugin d plugin \<in> set us" "\<forall>e\<in>set us. isLoadCall e"
      by simp_all
    from snoc.IH [OF this, of H] show ?thesis
      unfolding ep
      by (auto simp: applyDeviceCalls_append applyDeviceCalls_Cons set_versionsHeld)
  qed
qed

lemma versions_length_mono:
  assumes "set (versionsHeld H' d pid) \<subseteq> set (versionsHeld H d pid)"
  shows "length (versionsHeld H' d pid) \<le> length (versionsHeld H d pid)"
proof -
  have "card (set (versionsHeld H' d pid)) \<le> card (set (versionsHeld H d pid))"
    using assms by (simp add: card_mono)
  then show ?thesis
    by (simp add: distinct_card distinct_versionsHeld)
qed

lemma versions_single:
  assumes "set (versionsHeld H d pid) \<subseteq> {p}"
  shows "length (versionsHeld H d pid) \<le> 1"
proof -
  have "card (set (versionsHeld H d pid)) \<le> card {p}"
    by (rule card_mono) (use assms in simp_all)
  then show ?thesis
    by (simp add: distinct_card distinct_versionsHeld)
qed

lemma prefix_past:
  assumes "prefix pre (A @ B)" and "e \<in> set pre" and "e \<notin> set A"
  shows "\<exists>us. pre = A @ us \<and> prefix us B"
proof -
  from assms(1) have "prefix pre A \<or> (\<exists>us. pre = A @ us \<and> prefix us B)"
    by (simp add: prefix_append)
  then show ?thesis
  proof
    assume "prefix pre A"
    with assms(2,3) show ?thesis by (auto dest: set_mono_prefix)
  qed
qed

lemma device_after_load:
  assumes pre: "prefix pre (A @ B)"
    and load: "\<exists>e\<in>set pre. isLoadCall e"
    and noLoad: "\<forall>e\<in>set A. \<not> isLoadCall e"
    and unl: "UnloadDevicePlugin d pid \<in> set A"
    and loads: "\<forall>e\<in>set B. \<exists>d'. e = LoadDevicePlugin d' plugin"
  shows "set (versionsHeld (applyDeviceCalls pre H) d pid) \<subseteq> {plugin}"
proof -
  from load obtain e where e: "e \<in> set pre" "isLoadCall e" by blast
  with noLoad have "e \<notin> set A" by blast
  from prefix_past [OF pre e(1) this] obtain us where us: "pre = A @ us" "prefix us B"
    by blast
  from us(2) loads have "\<forall>e\<in>set us. \<exists>d'. e = LoadDevicePlugin d' plugin"
    by (auto dest: set_mono_prefix)
  from versions_loads [OF this, of "applyDeviceCalls A H" d pid]
    versions_unloaded [OF unl noLoad, of H]
  show ?thesis
    unfolding us(1) applyDeviceCalls_append by simp
qed

lemma device_one_version:
  assumes pre: "prefix pre (A @ B)"
    and noLoad: "\<forall>e\<in>set A. \<not> isLoadCall e"
    and unl: "\<forall>d p. LoadDevicePlugin d p \<in> set B \<longrightarrow> UnloadDevicePlugin d pid \<in> set A"
    and loads: "\<forall>e\<in>set B. \<exists>d'. e = LoadDevicePlugin d' plugin"
    and one: "length (versionsHeld H d pid) \<le> 1"
  shows "length (versionsHeld (applyDeviceCalls pre H) d pid) \<le> 1"
proof (cases "\<exists>p. LoadDevicePlugin d p \<in> set pre")
  case True
  then obtain p where p: "LoadDevicePlugin d p \<in> set pre" by blast
  then have load: "\<exists>e\<in>set pre. isLoadCall e" by force
  from p noLoad have "LoadDevicePlugin d p \<notin> set A" by force
  with p set_mono_prefix [OF pre] have "LoadDevicePlugin d p \<in> set B"
    by auto
  with unl have "UnloadDevicePlugin d pid \<in> set A" by blast
  from device_after_load [OF pre load noLoad this loads] show ?thesis
    by (rule versions_single)
next
  case False
  then have "\<forall>e\<in>set pre. \<forall>p. e \<noteq> LoadDevicePlugin d p" by blast
  from versions_other [OF this, of H pid] have
    "length (versionsHeld (applyDeviceCalls pre H) d pid) \<le> length (versionsHeld H d pid)"
    by (rule versions_length_mono)
  with one show ?thesis by simp
qed

lemma device_all_loaded:
  assumes noLoad: "\<forall>e\<in>set A. \<not> isLoadCall e"
    and unl: "UnloadDevicePlugin d (plugin_id plugin) \<in> set A"
    and loads: "\<forall>e\<in>set B. \<exists>d'. e = LoadDevicePlugin d' plugin"
    and mine: "LoadDevicePlugin d plugin \<in> set B"
  shows "versionsHeld (applyDeviceCalls (A @ B) H) d (plugin_id plugin) = [plugin]"
proof -
  have pre: "prefix (A @ B) (A @ B)" by simp
  from mine have load: "\<exists>e\<in>set (A @ B). isLoadCall e" by force
  from device_after_load [OF pre load noLoad unl loads, of H]
  have sub: "set (versionsHeld (applyDeviceCalls (A @ B) H) d (plugin_id plugin)) \<subseteq> {plugin}" .
  from loads have "\<forall>e\<in>set B. isLoadCall e" by auto
  from versions_loaded [OF mine this, of "applyDeviceCalls A H"]
  have "plugin \<in> set (versionsHeld (applyDeviceCalls (A @ B) H) d (plugin_id plugin))"
    by (simp add: applyDeviceCalls_append)
  with sub have "set (versionsHeld (applyDeviceCalls (A @ B) H) d (plugin_id plugin)) = {plugin}"
    by blast
  then have s: "set (versionsHeld (applyDeviceCalls (A @ B) H) d (plugin_id plugin)) = {plugin}" .
  then have "length (versionsHeld (applyDeviceCalls (A @ B) H) d (plugin_id plugin)) = 1"
    using distinct_card [OF distinct_versionsHeld [of "applyDeviceCalls (A @ B) H" d "plugin_id plugin"]]
    by simp
  then obtain x where "versionsHeld (applyDeviceCalls (A @ B) H) d (plugin_id plugin) = [x]"
    by (cases "versionsHeld (applyDeviceCalls (A @ B) H) d (plugin_id plugin)") auto
  with s show ?thesis by simp
qed

section \<open>Properties of the dispatcher\<close>

text \<open>
  C1.  The loop of \<open>processPluginCommandsQueue\<close> never throws, whatever the handlers
  do: the command at position \<open>i\<close> is processed in the world that the commands before
  it left, and leaves the world in which the next one is processed.  Processing one
  command runs its handler; when the handler throws, the catch logs and the result is
  normal.  The calls of the loop are the calls of each command in queue order.  After the loop \<open>pluginCommandsProcessed\<close> is dispatched with the length of
  the snapshot, and it is the only such dispatch the whole call makes.
\<close>

theorem processPluginCommandsQueue_marks_all_processed:
  "fst (forEach (processCommand E) queue w) = Inr ()
   \<and> (\<forall>i<length queue.
         snd (forEach (processCommand E) (take (Suc i) queue) w) =
           snd (processCommand E (queue ! i)
                  (snd (forEach (processCommand E) (take i queue) w))))
   \<and> (\<forall>c w1. processCommand E c w1 =
         (case handleCommand E c w1 of
            (Inl x, w2) \<Rightarrow>
              (Inr (), w2\<lparr>trace := trace w2 @ [ConsoleError ''Failed to process command'']\<rparr>)
          | (Inr v, w2) \<Rightarrow> (Inr v, w2)))
   \<and> emittedBy (forEach (processCommand E) queue) w =
       concat (map (\<lambda>i. emittedBy (processCommand E (queue ! i))
                           (snd (forEach (processCommand E) (take i queue) w)))
                 [0..<length queue])
   \<and> processPluginCommandsQueue E queue w =
       dispatch E (PluginCommandsProcessed (length queue))
         (snd (forEach (processCommand E) queue w))
   \<and> filter isProcessed (emittedBy (processPluginCommandsQueue E queue) w) =
       [Dispatch (PluginCommandsProcessed (length queue))]
   \<and> last (trace (snd (processPluginCommandsQueue E queue w))) =
       Dispatch (PluginCommandsProcessed (length queue))"
proof -
  have "last (trace (snd (processPluginCommandsQueue E queue w))) =
       Dispatch (PluginCommandsProcessed (length queue))"
    by (simp add: processPluginCommandsQueue_eq dispatch_def)
  then show ?thesis
    using forEach_processCommand_result [of E queue w]
      forEach_processCommand_step [of _ queue E w]
      processCommand_eq [of E]
      emittedBy_forEach_processCommand [of E queue w]
      processPluginCommandsQueue_eq [of E queue w]
      processPluginCommandsQueue_processed [of E queue w]
    by simp
qed

theorem processPluginCommandsQueue_marks_all_processed_witness:
  "fst (handleCommand stopThrowsEnv (testQueue ! 0) testWorld)
     = Inl (Thrown (StopPluginIfNeeded otherClient ''TestPlugin''))
   \<and> length testQueue = 3
   \<and> emittedBy (processPluginCommandsQueue stopThrowsEnv testQueue) testWorld =
       [StopPluginIfNeeded otherClient ''TestPlugin'',
        ConsoleError ''Failed to process command'',
        ConsoleError ''Unexpected plugin command'',
        StartPluginIfNeeded appClient testPlugin True,
        InitPlugin appClient ''TestPlugin'',
        Dispatch (SetPluginEnabled ''TestPlugin'' ''TestApp''),
        Dispatch (PluginCommandsProcessed 3)]"
proof -
  have len: "length testQueue = 3"
    by (simp add: testQueue_def)
  have t1: "take (Suc (Suc (Suc 0))) testQueue = testQueue"
       "testQueue ! 0 = UPDATE_PLUGIN nextPlugin False"
       "testQueue ! Suc 0 = UNKNOWN_COMMAND ''NOPE''"
       "testQueue ! Suc (Suc 0) = SWITCH_PLUGIN testPlugin None"
    by (simp_all add: testQueue_def)
  have h: "fst (handleCommand stopThrowsEnv (testQueue ! 0) testWorld)
     = Inl (Thrown (StopPluginIfNeeded otherClient ''TestPlugin''))"
    by (simp add: t1 testQueue_first_handler)
  note drained = processPluginCommandsQueue_marks_all_processed [of stopThrowsEnv testQueue testWorld]
  from drained have step: "\<forall>i<length testQueue.
         snd (forEach (processCommand stopThrowsEnv) (take (Suc i) testQueue) testWorld) =
           snd (processCommand stopThrowsEnv (testQueue ! i)
                  (snd (forEach (processCommand stopThrowsEnv) (take i testQueue) testWorld)))"
    by blast
  have s1: "snd (forEach (processCommand stopThrowsEnv) (take (Suc 0) testQueue) testWorld) =
      \<lparr>store = testStore,
       trace = [StopPluginIfNeeded otherClient ''TestPlugin'',
                ConsoleError ''Failed to process command'']\<rparr>"
    using step [rule_format, of 0] by (simp add: len t1 testQueue_first)
  have s2: "snd (forEach (processCommand stopThrowsEnv) (take (Suc (Suc 0)) testQueue) testWorld) =
      \<lparr>store = testStore,
       trace = [StopPluginIfNeeded otherClient ''TestPlugin'',
                ConsoleError ''Failed to process command'',
                ConsoleError ''Unexpected plugin command'']\<rparr>"
    using step [rule_format, of "Suc 0"] s1 by (simp add: len t1 processCommand_eq sink_def)
  have s3: "snd (forEach (processCommand stopThrowsEnv) (take (Suc (Suc (Suc 0))) testQueue) testWorld) =
      \<lparr>store = reducer (SetPluginEnabled ''TestPlugin'' ''TestApp'') testStore,
       trace = [StopPluginIfNeeded otherClient ''TestPlugin'',
                ConsoleError ''Failed to process command'',
                ConsoleError ''Unexpected plugin command'',
                StartPluginIfNeeded appClient testPlugin True,
                InitPlugin appClient ''TestPlugin'',
                Dispatch (SetPluginEnabled ''TestPlugin'' ''TestApp'')]\<rparr>"
    using step [rule_format, of "Suc (Suc 0)"] s2
    by (simp add: len t1 testQueue_third del: reducer.simps)
  from drained have "processPluginCommandsQueue stopThrowsEnv testQueue testWorld =
       dispatch stopThrowsEnv (PluginCommandsProcessed (length testQueue))
         (snd (forEach (processCommand stopThrowsEnv) testQueue testWorld))"
    by blast
  with s3 have "emittedBy (processPluginCommandsQueue stopThrowsEnv testQueue) testWorld =
       [StopPluginIfNeeded otherClient ''TestPlugin'',
        ConsoleError ''Failed to process command'',
        ConsoleError ''Unexpected plugin command'',
        StartPluginIfNeeded appClient testPlugin True,
        InitPlugin appClient ''TestPlugin'',
        Dispatch (SetPluginEnabled ''TestPlugin'' ''TestApp''),
        Dispatch (PluginCommandsProcessed 3)]"
    by (simp add: len t1 emittedBy_def dispatch_def testWorld_def del: reducer.simps)
  with h len show ?thesis by blast
qed



text \<open>
  C3.  \<open>updateClientPlugin\<close> first dispatches \<open>setPluginEnabled\<close> when it has to, then
  filters the connected clients: those that support the plugin and have it enabled for
  their app.  When the filter returns the set, the calls are, in this order, the
  dispatch, the stop calls of every client of the set, the start calls of every client
  of the same set, the \<open>pluginLoaded\<close> dispatch and the unload of the previous module; a
  throwing call cuts the sequence after that call.  When a registry lookup of the filter
  throws, the dispatch is the only call, and no client is stopped or started.  In every
  case no stop call follows a start call, and once a start call is made the stop call
  of every client of the set has been made.

  Over the owner model above, the calls made so far being taken as done: at no point
  of the update does a client of the set still hold an instance from before the update
  while a client of the set holds one created during it, and no pair ever has two
  instances created and not destroyed.  When no call throws, every client of the set
  ends with an instance created during the update.
\<close>

theorem updateClientPlugin_stops_before_starts:
  "(\<forall>cs. passClients E plugin enable (store w) = Inr cs \<longrightarrow>
        cs = filter (\<lambda>c. supportsPlugin c (plugin_id plugin)
                         \<and> enabledFor (afterEnable E plugin enable (store w)) (query_app c)
                               (plugin_id plugin) = Inr True)
               (clients (store w))
        \<and> emittedBy (updateClientPlugin E plugin enable) w =
            emitted E (trace w)
              (enableEvents E plugin enable (store w)
                 @ concat (map (\<lambda>c. stopEvents E c (plugin_id plugin) False) cs)
                 @ concat (map (\<lambda>c. startEvents E c plugin True) cs)
                 @ [Dispatch (PluginLoaded plugin)]
                 @ previousUnloadEvents (clientPlugins (store w) (plugin_id plugin)))
        \<and> ((\<exists>e\<in>set (emittedBy (updateClientPlugin E plugin enable) w). isStartCall e)
             \<longrightarrow> (\<forall>c\<in>set cs. StopPluginIfNeeded c (plugin_id plugin)
                                 \<in> set (emittedBy (updateClientPlugin E plugin enable) w)))
        \<and> (wellFormed I \<longrightarrow>
             (\<forall>pre c c'. prefix pre (emittedBy (updateClientPlugin E plugin enable) w)
                 \<longrightarrow> c \<in> set cs \<longrightarrow> c' \<in> set cs
                 \<longrightarrow> \<not> (holdsOld I (applyCalls pre I) (c, plugin_id plugin)
                         \<and> holdsNew I (applyCalls pre I) (c', plugin_id plugin))))
        \<and> (noThrow E \<longrightarrow>
             emittedBy (updateClientPlugin E plugin enable) w =
               enableEvents E plugin enable (store w)
                 @ concat (map (\<lambda>c. stopEvents E c (plugin_id plugin) False) cs)
                 @ concat (map (\<lambda>c. startEvents E c plugin True) cs)
                 @ [Dispatch (PluginLoaded plugin)]
                 @ previousUnloadEvents (clientPlugins (store w) (plugin_id plugin))
             \<and> fst (updateClientPlugin E plugin enable w) = Inr ()
             \<and> (\<forall>c\<in>set cs.
                   holdsNew I (applyCalls (emittedBy (updateClientPlugin E plugin enable) w) I)
                     (c, plugin_id plugin))))
   \<and> (\<forall>x. passClients E plugin enable (store w) = Inl x \<longrightarrow>
        (\<exists>c\<in>set (clients (store w)). supportsPlugin c (plugin_id plugin)
            \<and> enabledFor (afterEnable E plugin enable (store w)) (query_app c)
                  (plugin_id plugin) = Inl x)
        \<and> emittedBy (updateClientPlugin E plugin enable) w =
            emitted E (trace w) (enableEvents E plugin enable (store w))
        \<and> (\<forall>e\<in>set (emittedBy (updateClientPlugin E plugin enable) w).
              \<not> isStopCall e \<and> \<not> isStartCall e)
        \<and> fst (updateClientPlugin E plugin enable w) \<noteq> Inr ())
   \<and> (\<forall>i j. i < j \<longrightarrow> j < length (emittedBy (updateClientPlugin E plugin enable) w)
          \<longrightarrow> isStartCall (emittedBy (updateClientPlugin E plugin enable) w ! i)
          \<longrightarrow> \<not> isStopCall (emittedBy (updateClientPlugin E plugin enable) w ! j))
   \<and> (wellFormed I \<longrightarrow>
        (\<forall>pre k. prefix pre (emittedBy (updateClientPlugin E plugin enable) w)
            \<longrightarrow> length (liveInstances [] (hooksOf k (applyCalls pre I))) \<le> 1))"
proof -
  let ?new = "emittedBy (updateClientPlugin E plugin enable) w"
  let ?pid = "plugin_id plugin"
  let ?en = "enableEvents E plugin enable (store w)"
  let ?pv = "previousUnloadEvents (clientPlugins (store w) ?pid)"
  let ?A = "\<lambda>cs. ?en @ concat (map (\<lambda>c. stopEvents E c ?pid False) cs)"
  let ?B = "\<lambda>cs. concat (map (\<lambda>c. startEvents E c plugin True) cs)
                 @ [Dispatch (PluginLoaded plugin)] @ ?pv"
  have emitted: "?new = emitted E (trace w) (updateClientPluginPlan E plugin enable (store w))"
    by (rule updateClientPlugin_emitted)
  have en_ns: "\<forall>e\<in>set ?en. \<not> isStartCall e \<and> \<not> isStopCall e"
    by (cases "enableTarget E enable (store w)") (simp_all add: enableEvents_def)
  have A_ns: "\<forall>e\<in>set (?A cs). \<not> isStartCall e" for cs
    using en_ns stopEvents_no_start by auto
  have B_ns: "\<forall>e\<in>set (?B cs). \<not> isStopCall e" for cs
    using previousUnloadEvents_no_stop startEvents_no_stop by auto
  have returned: "?new = emitted E (trace w) (?A cs @ ?B cs) \<and> prefix ?new (?A cs @ ?B cs)"
    if cs: "passClients E plugin enable (store w) = Inr cs" for cs
  proof -
    have "?new = emitted E (trace w) (?A cs @ ?B cs)"
      unfolding emitted by (simp add: updateClientPluginPlan_def cs swapEvents_def)
    then show ?thesis
      by (simp only: emitted_prefix simp_thms)
  qed
  have thrown: "?new = emitted E (trace w) ?en"
    if "passClients E plugin enable (store w) = Inl x" for x
    unfolding emitted using that by (simp add: updateClientPluginPlan_def)
  have inr: "\<forall>cs. passClients E plugin enable (store w) = Inr cs \<longrightarrow>
        cs = filter (\<lambda>c. supportsPlugin c ?pid
                         \<and> enabledFor (afterEnable E plugin enable (store w)) (query_app c)
                               ?pid = Inr True)
               (clients (store w))
        \<and> ?new = emitted E (trace w)
              (?en @ concat (map (\<lambda>c. stopEvents E c ?pid False) cs)
                 @ concat (map (\<lambda>c. startEvents E c plugin True) cs)
                 @ [Dispatch (PluginLoaded plugin)] @ ?pv)
        \<and> ((\<exists>e\<in>set ?new. isStartCall e)
             \<longrightarrow> (\<forall>c\<in>set cs. StopPluginIfNeeded c ?pid \<in> set ?new))
        \<and> (wellFormed I \<longrightarrow>
             (\<forall>pre c c'. prefix pre ?new \<longrightarrow> c \<in> set cs \<longrightarrow> c' \<in> set cs
                 \<longrightarrow> \<not> (holdsOld I (applyCalls pre I) (c, ?pid)
                         \<and> holdsNew I (applyCalls pre I) (c', ?pid))))
        \<and> (noThrow E \<longrightarrow>
             ?new = ?en @ concat (map (\<lambda>c. stopEvents E c ?pid False) cs)
                 @ concat (map (\<lambda>c. startEvents E c plugin True) cs)
                 @ [Dispatch (PluginLoaded plugin)] @ ?pv
             \<and> fst (updateClientPlugin E plugin enable w) = Inr ()
             \<and> (\<forall>c\<in>set cs. holdsNew I (applyCalls ?new I) (c, ?pid)))"
  proof (intro allI impI)
    fix cs
    assume cs: "passClients E plugin enable (store w) = Inr cs"
    note new = returned [OF cs, THEN conjunct1]
    note pre = returned [OF cs, THEN conjunct2]
    have set_cs: "cs = filter (\<lambda>c. supportsPlugin c ?pid
                         \<and> enabledFor (afterEnable E plugin enable (store w)) (query_app c)
                               ?pid = Inr True)
               (clients (store w))"
      using cs by (rule passClients_Inr)
    have reach: "(\<exists>e\<in>set ?new. isStartCall e)
        \<longrightarrow> (\<forall>c\<in>set cs. StopPluginIfNeeded c ?pid \<in> set ?new)"
    proof (intro impI ballI)
      fix c
      assume "\<exists>e\<in>set ?new. isStartCall e" and c: "c \<in> set cs"
      then obtain e where e: "e \<in> set ?new" "isStartCall e" by blast
      with A_ns have "e \<notin> set (?A cs)" by blast
      with prefix_reaches [OF pre e(1)] have "set (?A cs) \<subseteq> set ?new" by blast
      moreover have "StopPluginIfNeeded c ?pid \<in> set (?A cs)"
        using c stop_in_stopEvents [of c ?pid E False] by auto
      ultimately show "StopPluginIfNeeded c ?pid \<in> set ?new" by blast
    qed
    have overlap: "wellFormed I \<longrightarrow>
             (\<forall>pre c c'. prefix pre ?new \<longrightarrow> c \<in> set cs \<longrightarrow> c' \<in> set cs
                 \<longrightarrow> \<not> (holdsOld I (applyCalls pre I) (c, ?pid)
                         \<and> holdsNew I (applyCalls pre I) (c', ?pid)))"
    proof (intro impI allI)
      fix p c c'
      assume wf: "wellFormed I" and p: "prefix p ?new" and c: "c \<in> set cs"
      from p pre have "prefix p (?A cs @ ?B cs)"
        by (rule prefix_order.trans)
      from swap_no_overlap [OF wf this stopPass_ops(1) stopPass_ops(2) [OF c]]
      show "\<not> (holdsOld I (applyCalls p I) (c, ?pid) \<and> holdsNew I (applyCalls p I) (c', ?pid))" .
    qed
    have quiet: "noThrow E \<longrightarrow>
             ?new = ?A cs @ ?B cs
             \<and> fst (updateClientPlugin E plugin enable w) = Inr ()
             \<and> (\<forall>c\<in>set cs. holdsNew I (applyCalls ?new I) (c, ?pid))"
    proof (intro impI)
      assume q: "noThrow E"
      with new have all: "?new = ?A cs @ ?B cs"
        by (simp only: emitted_noThrow)
      have res: "fst (updateClientPlugin E plugin enable w) = Inr ()"
        unfolding updateClientPlugin_exec execThen_result
        by (simp add: noThrow_completes [OF q] updateClientPluginFailure_def cs)
      have "holdsNew I (applyCalls ?new I) (c, ?pid)" if c: "c \<in> set cs" for c
        unfolding all
        by (rule swap_all_new [OF stopPass_ops(1) stopPass_ops(2) [OF c]
              startPass_ops(1) startPass_ops(2) [OF c]])
      with all res show "?new = ?A cs @ ?B cs
             \<and> fst (updateClientPlugin E plugin enable w) = Inr ()
             \<and> (\<forall>c\<in>set cs. holdsNew I (applyCalls ?new I) (c, ?pid))"
        by blast
    qed
    from set_cs new reach overlap quiet
    show "cs = filter (\<lambda>c. supportsPlugin c ?pid
                         \<and> enabledFor (afterEnable E plugin enable (store w)) (query_app c)
                               ?pid = Inr True)
               (clients (store w))
        \<and> ?new = emitted E (trace w)
              (?en @ concat (map (\<lambda>c. stopEvents E c ?pid False) cs)
                 @ concat (map (\<lambda>c. startEvents E c plugin True) cs)
                 @ [Dispatch (PluginLoaded plugin)] @ ?pv)
        \<and> ((\<exists>e\<in>set ?new. isStartCall e)
             \<longrightarrow> (\<forall>c\<in>set cs. StopPluginIfNeeded c ?pid \<in> set ?new))
        \<and> (wellFormed I \<longrightarrow>
             (\<forall>pre c c'. prefix pre ?new \<longrightarrow> c \<in> set cs \<longrightarrow> c' \<in> set cs
                 \<longrightarrow> \<not> (holdsOld I (applyCalls pre I) (c, ?pid)
                         \<and> holdsNew I (applyCalls pre I) (c', ?pid))))
        \<and> (noThrow E \<longrightarrow>
             ?new = ?en @ concat (map (\<lambda>c. stopEvents E c ?pid False) cs)
                 @ concat (map (\<lambda>c. startEvents E c plugin True) cs)
                 @ [Dispatch (PluginLoaded plugin)] @ ?pv
             \<and> fst (updateClientPlugin E plugin enable w) = Inr ()
             \<and> (\<forall>c\<in>set cs. holdsNew I (applyCalls ?new I) (c, ?pid)))"
      by (simp only: append_assoc simp_thms)
  qed
  have inl: "\<forall>x. passClients E plugin enable (store w) = Inl x \<longrightarrow>
        (\<exists>c\<in>set (clients (store w)). supportsPlugin c ?pid
            \<and> enabledFor (afterEnable E plugin enable (store w)) (query_app c) ?pid = Inl x)
        \<and> ?new = emitted E (trace w) ?en
        \<and> (\<forall>e\<in>set ?new. \<not> isStopCall e \<and> \<not> isStartCall e)
        \<and> fst (updateClientPlugin E plugin enable w) \<noteq> Inr ()"
  proof (intro allI impI)
    fix x
    assume x: "passClients E plugin enable (store w) = Inl x"
    note new = thrown [OF x]
    have "\<forall>e\<in>set ?new. \<not> isStopCall e \<and> \<not> isStartCall e"
      unfolding new using en_ns set_emitted [of E "trace w" ?en] by blast
    moreover have "fst (updateClientPlugin E plugin enable w) \<noteq> Inr ()"
      unfolding updateClientPlugin_exec execThen_result
      by (simp add: updateClientPluginFailure_def x)
    ultimately show "(\<exists>c\<in>set (clients (store w)). supportsPlugin c ?pid
            \<and> enabledFor (afterEnable E plugin enable (store w)) (query_app c) ?pid = Inl x)
        \<and> ?new = emitted E (trace w) ?en
        \<and> (\<forall>e\<in>set ?new. \<not> isStopCall e \<and> \<not> isStartCall e)
        \<and> fst (updateClientPlugin E plugin enable w) \<noteq> Inr ()"
      using passClients_Inl [OF x] new by blast
  qed
  have order: "\<forall>i j. i < j \<longrightarrow> j < length ?new \<longrightarrow> isStartCall (?new ! i)
      \<longrightarrow> \<not> isStopCall (?new ! j)"
  proof (cases "passClients E plugin enable (store w)")
    case (Inl x)
    from inl Inl have "\<forall>e\<in>set ?new. \<not> isStartCall e" by blast
    then show ?thesis by (metis nth_mem order.strict_trans)
  next
    case (Inr cs)
    note pre = returned [OF Inr, THEN conjunct2]
    from prefix_ordered [OF pre A_ns B_ns] show ?thesis by blast
  qed
  have live: "wellFormed I \<longrightarrow>
        (\<forall>pre k. prefix pre ?new
            \<longrightarrow> length (liveInstances [] (hooksOf k (applyCalls pre I))) \<le> 1)"
    using wellFormed_applyCalls wellFormed_one_live by blast
  from inr inl order live show ?thesis
    by (intro conjI)
qed

theorem updateClientPlugin_stops_before_starts_witness:
  "passClients quietEnv nextPlugin True (store testWorld) = Inr [appClient, otherClient]
   \<and> noThrow quietEnv \<and> wellFormed startedInstances
   \<and> emittedBy (updateClientPlugin quietEnv nextPlugin True) testWorld =
       [Dispatch (SetPluginEnabled ''TestPlugin'' ''TestApp''),
        DeinitPlugin appClient ''TestPlugin'',
        StopPluginIfNeeded appClient ''TestPlugin'',
        StopPluginIfNeeded otherClient ''TestPlugin'',
        StartPluginIfNeeded appClient nextPlugin True,
        InitPlugin appClient ''TestPlugin'',
        StartPluginIfNeeded otherClient nextPlugin True,
        Dispatch (PluginLoaded nextPlugin),
        UnloadModule ''./test/index.js'']
   \<and> fst (updateClientPlugin quietEnv nextPlugin True testWorld) = Inr ()
   \<and> holdsOld startedInstances startedInstances (appClient, ''TestPlugin'')
   \<and> holdsOld startedInstances startedInstances (otherClient, ''TestPlugin'')
   \<and> holdsNew startedInstances
         (applyCalls (emittedBy (updateClientPlugin quietEnv nextPlugin True) testWorld)
            startedInstances)
         (appClient, ''TestPlugin'')
   \<and> holdsNew startedInstances
         (applyCalls (emittedBy (updateClientPlugin quietEnv nextPlugin True) testWorld)
            startedInstances)
         (otherClient, ''TestPlugin'')
   \<and> drop (length (hookLog startedInstances))
         (hookLog (applyCalls (emittedBy (updateClientPlugin quietEnv nextPlugin True) testWorld)
                     startedInstances)) =
       [((appClient, ''TestPlugin''), Disconnected 0),
        ((appClient, ''TestPlugin''), Destroyed 0),
        ((otherClient, ''TestPlugin''), Disconnected (Suc 0)),
        ((otherClient, ''TestPlugin''), Destroyed (Suc 0)),
        ((appClient, ''TestPlugin''), Created (Suc (Suc 0))),
        ((appClient, ''TestPlugin''), Connected (Suc (Suc 0))),
        ((otherClient, ''TestPlugin''), Created (Suc (Suc (Suc 0)))),
        ((otherClient, ''TestPlugin''), Connected (Suc (Suc (Suc 0))))]
   \<and> passClients startThrowsEnv nextPlugin True (store testWorld) = Inr [appClient, otherClient]
   \<and> emittedBy (updateClientPlugin startThrowsEnv nextPlugin True) testWorld =
       [Dispatch (SetPluginEnabled ''TestPlugin'' ''TestApp''),
        DeinitPlugin appClient ''TestPlugin'',
        StopPluginIfNeeded appClient ''TestPlugin'',
        StopPluginIfNeeded otherClient ''TestPlugin'',
        StartPluginIfNeeded appClient nextPlugin True]
   \<and> holdsNew startedInstances
         (applyCalls (emittedBy (updateClientPlugin startThrowsEnv nextPlugin True) testWorld)
            startedInstances)
         (appClient, ''TestPlugin'')
   \<and> \<not> holdsOld startedInstances
         (applyCalls (emittedBy (updateClientPlugin startThrowsEnv nextPlugin True) testWorld)
            startedInstances)
         (otherClient, ''TestPlugin'')
   \<and> length (liveInstances []
         (hooksOf (appClient, ''TestPlugin'')
            (applyCalls (emittedBy (updateClientPlugin quietEnv nextPlugin True) testWorld)
               startedInstances))) \<le> 1
   \<and> passClients quietEnv nextPlugin True (store ctorWorld) = Inl TypeError
   \<and> emittedBy (updateClientPlugin quietEnv nextPlugin True) ctorWorld =
       [Dispatch (SetPluginEnabled ''TestPlugin'' ''TestApp'')]"
proof -
  have st: "store testWorld = testStore" "trace testWorld = []"
       "store ctorWorld = ctorStore" "trace ctorWorld = []"
    by (simp_all add: testWorld_def ctorWorld_def)
  have pid: "plugin_id nextPlugin = ''TestPlugin''"
    by (simp add: nextPlugin_def)
  have pcq: "passClients quietEnv nextPlugin True (store testWorld) = Inr [appClient, otherClient]"
    and pcs: "passClients startThrowsEnv nextPlugin True (store testWorld) = Inr [appClient, otherClient]"
    and pcc: "passClients quietEnv nextPlugin True (store ctorWorld) = Inl TypeError"
    unfolding st
    by (simp_all add: passClients_enable_testStore passClients_enable_ctorStore env_deconstruct)
  have wf: "wellFormed startedInstances"
    unfolding startedInstances_def by (rule wellFormed_lifecycle [OF wellFormed_noInstances])
  have ne: "appClient \<noteq> otherClient"
    by (simp add: appClient_def otherClient_def)
  have started: "startedInstances =
      \<lparr>sandyPluginStates =
          [(appClient, ''TestPlugin'') \<mapsto> \<lparr>instanceId = 0, connected = True\<rparr>,
           (otherClient, ''TestPlugin'') \<mapsto> \<lparr>instanceId = Suc 0, connected = True\<rparr>],
        nextInstance = Suc (Suc 0),
        hookLog = [((appClient, ''TestPlugin''), Created 0),
                   ((appClient, ''TestPlugin''), Connected 0),
                   ((otherClient, ''TestPlugin''), Created (Suc 0)),
                   ((otherClient, ''TestPlugin''), Connected (Suc 0))]\<rparr>"
    using ne
    by (simp add: startedInstances_def lifecycle_def noInstances_def startPluginIfNeeded_def
          connectInstance_def createInstance_def)
  have old: "holdsOld startedInstances startedInstances (appClient, ''TestPlugin'')"
       "holdsOld startedInstances startedInstances (otherClient, ''TestPlugin'')"
    using ne by (simp_all add: started holdsOld_def)
  note inr = updateClientPlugin_stops_before_starts
      [of quietEnv nextPlugin True testWorld startedInstances,
       THEN conjunct1, rule_format, OF pcq]
  note quiet = inr [THEN conjunct2, THEN conjunct2, THEN conjunct2, THEN conjunct2,
       rule_format, OF quietEnv_noThrow]
  from quiet have run: "emittedBy (updateClientPlugin quietEnv nextPlugin True) testWorld =
       [Dispatch (SetPluginEnabled ''TestPlugin'' ''TestApp''),
        DeinitPlugin appClient ''TestPlugin'',
        StopPluginIfNeeded appClient ''TestPlugin'',
        StopPluginIfNeeded otherClient ''TestPlugin'',
        StartPluginIfNeeded appClient nextPlugin True,
        InitPlugin appClient ''TestPlugin'',
        StartPluginIfNeeded otherClient nextPlugin True,
        Dispatch (PluginLoaded nextPlugin),
        UnloadModule ''./test/index.js'']"
    by (simp add: st pid enableEvents_testStore env_deconstruct previousUnload_testStore
          stopEvents_def startEvents_def)
  from quiet have res: "fst (updateClientPlugin quietEnv nextPlugin True testWorld) = Inr ()"
    by blast
  note fresh = quiet [THEN conjunct2, THEN conjunct2, rule_format]
  from fresh [of appClient] fresh [of otherClient]
  have new: "holdsNew startedInstances
         (applyCalls (emittedBy (updateClientPlugin quietEnv nextPlugin True) testWorld)
            startedInstances)
         (appClient, ''TestPlugin'')"
       "holdsNew startedInstances
         (applyCalls (emittedBy (updateClientPlugin quietEnv nextPlugin True) testWorld)
            startedInstances)
         (otherClient, ''TestPlugin'')"
    by (simp_all add: pid)
  have hooks: "drop (length (hookLog startedInstances))
         (hookLog (applyCalls (emittedBy (updateClientPlugin quietEnv nextPlugin True) testWorld)
                     startedInstances)) =
       [((appClient, ''TestPlugin''), Disconnected 0),
        ((appClient, ''TestPlugin''), Destroyed 0),
        ((otherClient, ''TestPlugin''), Disconnected (Suc 0)),
        ((otherClient, ''TestPlugin''), Destroyed (Suc 0)),
        ((appClient, ''TestPlugin''), Created (Suc (Suc 0))),
        ((appClient, ''TestPlugin''), Connected (Suc (Suc 0))),
        ((otherClient, ''TestPlugin''), Created (Suc (Suc (Suc 0)))),
        ((otherClient, ''TestPlugin''), Connected (Suc (Suc (Suc 0))))]"
    unfolding run started using ne
    by (simp add: applyCalls_def lifecycle_def pid startPluginIfNeeded_def stopPluginIfNeeded_def
          connectInstance_def disconnectInstance_def createInstance_def destroyInstance_def)
  note cut = updateClientPlugin_stops_before_starts
      [of startThrowsEnv nextPlugin True testWorld startedInstances,
       THEN conjunct1, rule_format, OF pcs, THEN conjunct2, THEN conjunct1]
  then have thrown: "emittedBy (updateClientPlugin startThrowsEnv nextPlugin True) testWorld =
       [Dispatch (SetPluginEnabled ''TestPlugin'' ''TestApp''),
        DeinitPlugin appClient ''TestPlugin'',
        StopPluginIfNeeded appClient ''TestPlugin'',
        StopPluginIfNeeded otherClient ''TestPlugin'',
        StartPluginIfNeeded appClient nextPlugin True]"
    by (simp add: st pid enableEvents_testStore env_deconstruct previousUnload_testStore
          stopEvents_def startEvents_def)
  have half: "holdsNew startedInstances
         (applyCalls (emittedBy (updateClientPlugin startThrowsEnv nextPlugin True) testWorld)
            startedInstances)
         (appClient, ''TestPlugin'')"
    unfolding thrown started using ne
    by (simp add: applyCalls_def lifecycle_def pid startPluginIfNeeded_def stopPluginIfNeeded_def
          connectInstance_def disconnectInstance_def createInstance_def destroyInstance_def
          holdsNew_def)
  have members: "otherClient \<in> set [appClient, otherClient]"
       "appClient \<in> set [appClient, otherClient]"
    by simp_all
  note apart = updateClientPlugin_stops_before_starts
      [of startThrowsEnv nextPlugin True testWorld startedInstances,
       THEN conjunct1, rule_format, OF pcs,
       THEN conjunct2, THEN conjunct2, THEN conjunct2, THEN conjunct1,
       rule_format, OF wf prefix_order.refl members]
  with half have gone: "\<not> holdsOld startedInstances
         (applyCalls (emittedBy (updateClientPlugin startThrowsEnv nextPlugin True) testWorld)
            startedInstances)
         (otherClient, ''TestPlugin'')"
    by (simp add: pid)
  note single = updateClientPlugin_stops_before_starts
      [of quietEnv nextPlugin True testWorld startedInstances,
       THEN conjunct2, THEN conjunct2, THEN conjunct2, rule_format,
       OF wf prefix_order.refl, of "(appClient, ''TestPlugin'')"]
  note failed = updateClientPlugin_stops_before_starts
      [of quietEnv nextPlugin True ctorWorld startedInstances,
       THEN conjunct2, THEN conjunct1, rule_format, OF pcc, THEN conjunct2, THEN conjunct1]
  then have lookup: "emittedBy (updateClientPlugin quietEnv nextPlugin True) ctorWorld =
       [Dispatch (SetPluginEnabled ''TestPlugin'' ''TestApp'')]"
    by (simp add: st enableEvents_testStore env_deconstruct)
  from pcq quietEnv_noThrow wf run res old new hooks pcs thrown half gone single pcc lookup
  show ?thesis by (intro conjI)
qed

text \<open>
  C4.  \<open>switchClientPlugin\<close> works on a target app: the explicit app when one is passed,
  even an empty one, and the app of the selected client otherwise.  With no target app,
  or an empty one, it returns and changes nothing; in particular an explicit empty name
  is not replaced by the selected app.  Otherwise it reads the registry as it is now.
  When that lookup answers that the plugin is enabled for the app, it stops the plugin
  on each client of the app and dispatches \<open>clearMessageQueue\<close> for that client's plugin
  key, and then dispatches \<open>setPluginDisabled\<close>; when it answers that the plugin is not
  enabled, it starts the plugin on each client of the app and then dispatches
  \<open>setPluginEnabled\<close>.  A throwing call cuts the sequence after that call.
\<close>

theorem switchClientPlugin_toggle:
  "(resolveApp E selectedApp (store w) = None \<longrightarrow>
      switchClientPlugin E plugin selectedApp w = (Inr (), w))
   \<and> (\<forall>app enabled. resolveApp E selectedApp (store w) = Some app
        \<longrightarrow> enabledFor (store w) app (plugin_id plugin) = Inr enabled \<longrightarrow>
        emittedBy (switchClientPlugin E plugin selectedApp) w =
          emitted E (trace w)
            (if enabled
             then concat (map (\<lambda>c. stopEvents E c (plugin_id plugin) False
                                   @ [Dispatch (ClearMessageQueue (client_id c)
                                                 (query_device_id c) (plugin_id plugin))])
                            (getClientsByAppName (clients (store w)) app))
                    @ [Dispatch (SetPluginDisabled (plugin_id plugin) app)]
             else concat (map (\<lambda>c. startEvents E c plugin False)
                            (getClientsByAppName (clients (store w)) app))
                    @ [Dispatch (SetPluginEnabled (plugin_id plugin) app)])
        \<and> (noThrow E \<longrightarrow>
             fst (switchClientPlugin E plugin selectedApp w) = Inr ()
             \<and> emittedBy (switchClientPlugin E plugin selectedApp) w =
               (if enabled
                then concat (map (\<lambda>c. stopEvents E c (plugin_id plugin) False
                                      @ [Dispatch (ClearMessageQueue (client_id c)
                                                    (query_device_id c) (plugin_id plugin))])
                               (getClientsByAppName (clients (store w)) app))
                       @ [Dispatch (SetPluginDisabled (plugin_id plugin) app)]
                else concat (map (\<lambda>c. startEvents E c plugin False)
                               (getClientsByAppName (clients (store w)) app))
                       @ [Dispatch (SetPluginEnabled (plugin_id plugin) app)])))
   \<and> resolveApp E (Some a) (store w) = (if a = [] then None else Some a)
   \<and> resolveApp E None (store w) =
       (case getSelectedAppName E (store w) of
          None \<Rightarrow> None
        | Some b \<Rightarrow> if b = [] then None else Some b)"
proof (intro conjI allI impI)
  show "resolveApp E (Some a) (store w) = (if a = [] then None else Some a)"
    by (simp add: resolveApp_def truthy_def)
next
  show "resolveApp E None (store w) =
       (case getSelectedAppName E (store w) of
          None \<Rightarrow> None
        | Some b \<Rightarrow> if b = [] then None else Some b)"
    by (cases "getSelectedAppName E (store w)") (simp_all add: resolveApp_def truthy_def)
next
  assume "resolveApp E selectedApp (store w) = None"
  then show "switchClientPlugin E plugin selectedApp w = (Inr (), w)"
    by (simp add: switchClientPlugin_exec)
next
  fix app enabled
  assume r: "resolveApp E selectedApp (store w) = Some app"
    and en: "enabledFor (store w) app (plugin_id plugin) = Inr enabled"
  show "emittedBy (switchClientPlugin E plugin selectedApp) w =
          emitted E (trace w)
            (if enabled
             then concat (map (\<lambda>c. stopEvents E c (plugin_id plugin) False
                                   @ [Dispatch (ClearMessageQueue (client_id c)
                                                 (query_device_id c) (plugin_id plugin))])
                            (getClientsByAppName (clients (store w)) app))
                    @ [Dispatch (SetPluginDisabled (plugin_id plugin) app)]
             else concat (map (\<lambda>c. startEvents E c plugin False)
                            (getClientsByAppName (clients (store w)) app))
                    @ [Dispatch (SetPluginEnabled (plugin_id plugin) app)])"
    unfolding switchClientPlugin_emitted [OF r]
    by (simp add: switchClientPluginPlan_def toggleEvents_def en)
next
  fix app enabled
  assume r: "resolveApp E selectedApp (store w) = Some app"
    and en: "enabledFor (store w) app (plugin_id plugin) = Inr enabled"
    and q: "noThrow E"
  show "fst (switchClientPlugin E plugin selectedApp w) = Inr ()"
    unfolding switchClientPlugin_exec
    by (simp add: r exec_result noThrow_completes [OF q] switchClientPluginFailure_def en)
next
  fix app enabled
  assume r: "resolveApp E selectedApp (store w) = Some app"
    and en: "enabledFor (store w) app (plugin_id plugin) = Inr enabled"
    and q: "noThrow E"
  show "emittedBy (switchClientPlugin E plugin selectedApp) w =
               (if enabled
                then concat (map (\<lambda>c. stopEvents E c (plugin_id plugin) False
                                      @ [Dispatch (ClearMessageQueue (client_id c)
                                                    (query_device_id c) (plugin_id plugin))])
                               (getClientsByAppName (clients (store w)) app))
                       @ [Dispatch (SetPluginDisabled (plugin_id plugin) app)]
                else concat (map (\<lambda>c. startEvents E c plugin False)
                               (getClientsByAppName (clients (store w)) app))
                       @ [Dispatch (SetPluginEnabled (plugin_id plugin) app)])"
    unfolding switchClientPlugin_emitted [OF r] emitted_noThrow [OF q]
    by (simp add: switchClientPluginPlan_def toggleEvents_def en)
qed

theorem switchClientPlugin_toggle_witness:
  "noThrow quietEnv
   \<and> resolveApp quietEnv None (testStore\<lparr>selectedAppId := None\<rparr>) = None
   \<and> switchClientPlugin quietEnv testPlugin None
         \<lparr>store = testStore\<lparr>selectedAppId := None\<rparr>, trace = []\<rparr>
       = (Inr (), \<lparr>store = testStore\<lparr>selectedAppId := None\<rparr>, trace = []\<rparr>)
   \<and> resolveApp quietEnv (Some []) testStore = None
   \<and> switchClientPlugin quietEnv testPlugin (Some []) testWorld = (Inr (), testWorld)
   \<and> resolveApp quietEnv (Some ''OtherApp'') testStore = Some ''OtherApp''
   \<and> enabledFor testStore ''OtherApp'' ''TestPlugin'' = Inr True
   \<and> emittedBy (switchClientPlugin quietEnv testPlugin (Some ''OtherApp'')) testWorld =
       [StopPluginIfNeeded otherClient ''TestPlugin'',
        Dispatch (ClearMessageQueue ''OtherApp#Android#MockAndroidDevice#serial'' ''serial''
                    ''TestPlugin''),
        Dispatch (SetPluginDisabled ''TestPlugin'' ''OtherApp'')]
   \<and> resolveApp quietEnv None testStore = Some ''TestApp''
   \<and> enabledFor testStore ''TestApp'' ''TestPlugin'' = Inr False
   \<and> emittedBy (switchClientPlugin quietEnv testPlugin None) testWorld =
       [StartPluginIfNeeded appClient testPlugin True,
        InitPlugin appClient ''TestPlugin'',
        Dispatch (SetPluginEnabled ''TestPlugin'' ''TestApp'')]
   \<and> fst (switchClientPlugin quietEnv testPlugin None testWorld) = Inr ()"
proof -
  have q: "noThrow quietEnv"
    by (simp add: noThrow_def quietEnv_def)
  have r0: "resolveApp quietEnv None (testStore\<lparr>selectedAppId := None\<rparr>) = None"
    by (simp add: resolveApp_def getSelectedAppName_def)
  have r1: "resolveApp quietEnv (Some ''OtherApp'') testStore = Some ''OtherApp''"
       "resolveApp quietEnv (Some []) testStore = None"
    by (simp_all add: resolveApp_def truthy_def)
  have r2: "resolveApp quietEnv None testStore = Some ''TestApp''"
    by (simp add: resolveApp_def getSelectedAppName_def truthy_def testStore_def quietEnv_def)
  note en = enabledFor_testStore
  have cs: "getClientsByAppName (clients testStore) ''OtherApp'' = [otherClient]"
       "getClientsByAppName (clients testStore) ''TestApp'' = [appClient]"
    by (simp_all add: getClientsByAppName_def testStore_def appClient_def otherClient_def)
  have key: "client_id otherClient = ''OtherApp#Android#MockAndroidDevice#serial''"
       "query_device_id otherClient = ''serial''" "plugin_id testPlugin = ''TestPlugin''"
    by (simp_all add: otherClient_def testPlugin_def)
  have st: "store testWorld = testStore"
    by (simp add: testWorld_def)
  let ?idle = "\<lparr>store = testStore\<lparr>selectedAppId := None\<rparr>, trace = []\<rparr>"
  from switchClientPlugin_toggle [of quietEnv None ?idle testPlugin] r0
  have a0: "switchClientPlugin quietEnv testPlugin None ?idle = (Inr (), ?idle)"
    by simp
  from switchClientPlugin_toggle [of quietEnv "Some []" testWorld testPlugin] r1(2)
  have a1: "switchClientPlugin quietEnv testPlugin (Some []) testWorld = (Inr (), testWorld)"
    by (simp add: st)
  note other = switchClientPlugin_toggle
      [of quietEnv "Some ''OtherApp''" testWorld testPlugin,
       THEN conjunct2, THEN conjunct1, rule_format, of "''OtherApp''" True,
       THEN conjunct2, rule_format, OF _ _ q]
  then have a2: "emittedBy (switchClientPlugin quietEnv testPlugin (Some ''OtherApp'')) testWorld =
       [StopPluginIfNeeded otherClient ''TestPlugin'',
        Dispatch (ClearMessageQueue ''OtherApp#Android#MockAndroidDevice#serial'' ''serial''
                    ''TestPlugin''),
        Dispatch (SetPluginDisabled ''TestPlugin'' ''OtherApp'')]"
    by (simp add: st r1 en cs key stopEvents_def)
  note selected = switchClientPlugin_toggle
      [of quietEnv None testWorld testPlugin,
       THEN conjunct2, THEN conjunct1, rule_format, of "''TestApp''" False,
       THEN conjunct2, rule_format, OF _ _ q]
  then have a3: "emittedBy (switchClientPlugin quietEnv testPlugin None) testWorld =
       [StartPluginIfNeeded appClient testPlugin True,
        InitPlugin appClient ''TestPlugin'',
        Dispatch (SetPluginEnabled ''TestPlugin'' ''TestApp'')]"
       "fst (switchClientPlugin quietEnv testPlugin None testWorld) = Inr ()"
    by (simp_all add: st r2 en cs key startEvents_def)
  from q r0 a0 r1(2) a1 r1(1) en(2) a2 r2 en(1) a3 show ?thesis
    by (intro conjI)
qed

text \<open>
  Where claim C4 as stated fails.  With an explicit empty app name and an app selected
  for which the plugin is not enabled and which has a connected client,
  \<open>switchClientPlugin\<close> returns without a call, where the claim has it start the plugin
  on that client and dispatch \<open>setPluginEnabled\<close>.  With the explicit app name
  \<open>constructor\<close>, which has a connected client and no entry in the registry, it throws
  a \<open>TypeError\<close> without a call, where the claim has it start the plugin on that client
  and dispatch \<open>setPluginEnabled\<close>.
\<close>

theorem switchClientPlugin_toggle_counterexample:
  "getSelectedAppName quietEnv (store ctorWorld) = Some ''TestApp''
   \<and> getClientsByAppName (clients (store ctorWorld)) ''TestApp'' = [appClient]
   \<and> enabledPlugins (store ctorWorld) ''TestApp'' = None
   \<and> switchClientPlugin quietEnv testPlugin (Some []) ctorWorld = (Inr (), ctorWorld)
   \<and> getClientsByAppName (clients (store ctorWorld)) ''constructor'' = [ctorClient]
   \<and> enabledPlugins (store ctorWorld) ''constructor'' = None
   \<and> switchClientPlugin quietEnv testPlugin (Some ''constructor'') ctorWorld
       = (Inl TypeError, ctorWorld)"
proof -
  have st: "store ctorWorld = ctorStore"
    by (simp add: ctorWorld_def)
  have sel: "getSelectedAppName quietEnv (store ctorWorld) = Some ''TestApp''"
    unfolding st by (simp add: selected_testStore env_deconstruct)
  have cs: "getClientsByAppName (clients (store ctorWorld)) ''TestApp'' = [appClient]"
       "getClientsByAppName (clients (store ctorWorld)) ''constructor'' = [ctorClient]"
    by (simp_all add: st getClientsByAppName_def ctorStore_def appClient_def ctorClient_def)
  have reg: "enabledPlugins (store ctorWorld) ''TestApp'' = None"
       "enabledPlugins (store ctorWorld) ''constructor'' = None"
    by (simp_all add: st ctorStore_def testStore_def)
  have empty: "switchClientPlugin quietEnv testPlugin (Some []) ctorWorld = (Inr (), ctorWorld)"
    by (simp add: switchClientPlugin_def truthy_def ret_def)
  have lookup: "enabledFor (store ctorWorld) ''constructor'' (plugin_id testPlugin) = Inl TypeError"
    by (simp add: enabledFor_def reg objectPrototypeProperties_def)
  have thrown: "switchClientPlugin quietEnv testPlugin (Some ''constructor'') ctorWorld
       = (Inl TypeError, ctorWorld)"
    by (simp add: switchClientPlugin_def truthy_def Let_def lookup fromResult_andThen)
  from sel cs(1) reg(1) empty cs(2) reg(2) thrown show ?thesis
    by (intro conjI)
qed

text \<open>
  C5.  Over the container model above: after the plugin \<open>X\<close> was selected with the
  payload \<open>p\<close>, selecting it again with \<open>p\<close> changes nothing, and neither does an
  unrelated store update; selecting it with another payload \<open>q\<close> delivers \<open>q\<close> once; and
  selecting another plugin and then \<open>X\<close> with \<open>p\<close> again delivers \<open>p\<close> to \<open>X\<close> once
  more.  The selection itself delivers \<open>p\<close> once unless \<open>X\<close> was already selected and
  \<open>p\<close> was the payload delivered last.
\<close>

theorem deepLink_delivered_once_per_selection:
  "storeStep (SelectPlugin X (Some p)) (storeStep (SelectPlugin X (Some p)) s)
     = storeStep (SelectPlugin X (Some p)) s
   \<and> storeStep OtherUpdate (storeStep (SelectPlugin X (Some p)) s)
       = storeStep (SelectPlugin X (Some p)) s
   \<and> (q \<noteq> p \<longrightarrow>
        linksSeen (storeStep (SelectPlugin X (Some q)) (storeStep (SelectPlugin X (Some p)) s))
          = linksSeen (storeStep (SelectPlugin X (Some p)) s) @ [(X, q)])
   \<and> (Y \<noteq> X \<longrightarrow>
        linksSeenBy X (storeStep (SelectPlugin X (Some p))
                        (storeStep (SelectPlugin Y l) (storeStep (SelectPlugin X (Some p)) s)))
          = linksSeenBy X (storeStep (SelectPlugin X (Some p)) s) @ [p])
   \<and> (selectedPlugin s \<noteq> Some X \<or> lastDeepLink s \<noteq> Some p \<longrightarrow>
        linksSeen (storeStep (SelectPlugin X (Some p)) s) = linksSeen s @ [(X, p)])
   \<and> (selectedPlugin s = Some X \<and> lastDeepLink s = Some p \<longrightarrow>
        linksSeen (storeStep (SelectPlugin X (Some p)) s) = linksSeen s)"
  by (cases l) (auto simp: renderContainer_def linksSeenBy_def)

theorem deepLink_delivered_once_per_selection_witness:
  "''london!'' \<noteq> ''universe!'' \<and> ''Logs'' \<noteq> ''TestPlugin''
   \<and> selectedPlugin deepLinkTestStart = Some ''TestPlugin''
   \<and> lastDeepLink deepLinkTestStart \<noteq> Some ''universe!''
   \<and> linksSeen (storeStep (SelectPlugin ''TestPlugin'' (Some ''universe!'')) deepLinkTestStart)
       = [(''TestPlugin'', ''universe!'')]
   \<and> linksSeen (storeStep (SelectPlugin ''TestPlugin'' (Some ''london!''))
         (storeStep (SelectPlugin ''TestPlugin'' (Some ''universe!'')) deepLinkTestStart))
       = [(''TestPlugin'', ''universe!''), (''TestPlugin'', ''london!'')]
   \<and> linksSeen (storeStep (SelectPlugin ''TestPlugin'' (Some ''universe!''))
         (storeStep (SelectPlugin ''TestPlugin'' (Some ''universe!'')) deepLinkTestStart))
       = [(''TestPlugin'', ''universe!'')]
   \<and> linksSeenBy ''TestPlugin'' (fold storeStep deepLinkTestActions deepLinkTestStart)
       = [''universe!'', ''london!'', ''london!'']"
proof -
  let ?u = "storeStep (SelectPlugin ''TestPlugin'' (Some ''universe!'')) deepLinkTestStart"
  let ?l = "storeStep (SelectPlugin ''TestPlugin'' (Some ''london!'')) ?u"
  have st: "selectedPlugin deepLinkTestStart = Some ''TestPlugin''"
       "lastDeepLink deepLinkTestStart \<noteq> Some ''universe!''"
       "linksSeen deepLinkTestStart = []"
    by (simp_all add: deepLinkTestStart_def)
  note first = deepLink_delivered_once_per_selection
      [of "''TestPlugin''" "''universe!''" deepLinkTestStart "''london!''" "''Logs''" None]
  note second = deepLink_delivered_once_per_selection
      [of "''TestPlugin''" "''london!''" ?u "''universe!''" "''Logs''" "Some ''london!''"]
  from first st have u: "linksSeen ?u = [(''TestPlugin'', ''universe!'')]"
    by simp
  from first u have l: "linksSeen ?l = [(''TestPlugin'', ''universe!''), (''TestPlugin'', ''london!'')]"
    by simp
  from first have same: "storeStep (SelectPlugin ''TestPlugin'' (Some ''universe!'')) ?u = ?u"
      "storeStep OtherUpdate ?u = ?u"
    by blast+
  have run: "fold storeStep deepLinkTestActions deepLinkTestStart =
      storeStep (SelectPlugin ''TestPlugin'' (Some ''london!''))
        (storeStep (SelectPlugin ''Logs'' (Some ''london!'')) ?l)"
    by (simp add: deepLinkTestActions_def same del: storeStep.simps)
  from second have "linksSeenBy ''TestPlugin''
      (storeStep (SelectPlugin ''TestPlugin'' (Some ''london!''))
        (storeStep (SelectPlugin ''Logs'' (Some ''london!'')) ?l))
      = linksSeenBy ''TestPlugin'' ?l @ [''london!'']"
    by simp
  with l run have all: "linksSeenBy ''TestPlugin'' (fold storeStep deepLinkTestActions deepLinkTestStart)
       = [''universe!'', ''london!'', ''london!'']"
    by (simp add: linksSeenBy_def del: storeStep.simps)
  from same(1) u have again: "linksSeen (storeStep (SelectPlugin ''TestPlugin'' (Some ''universe!'')) ?u)
      = [(''TestPlugin'', ''universe!'')]"
    by (simp del: storeStep.simps)
  from st u l again all show ?thesis by (simp del: storeStep.simps)
qed

text \<open>
  C6.  In \<open>updateDevicePlugin\<close> the calls are, in this order: the
  \<open>setDevicePluginEnabled\<close> dispatch when the enable flag is set, \<open>unloadDevicePlugin\<close>
  on every device supporting the plugin, the swap of the version, and
  \<open>loadDevicePlugin\<close> on every such device; a throwing call cuts the sequence after
  that call.  The swap is the unload of the previous module version (when there is one
  and it is not bundled) followed by the \<open>pluginLoaded\<close> dispatch that registers the
  new definition.  So no device unload follows a call of the swap, once a load call is
  made only load calls follow, and every unload of the pass and the registration
  precede it.

  Over the device model above, the calls made so far being taken as done: a device that
  held at most one version of the plugin before the update holds at most one at every
  point of it; once a load call is made, no supporting device holds another version than
  the new one; and when no call throws, every supporting device ends holding the new
  version only.
\<close>

theorem updateDevicePlugin_unload_swap_load:
  "emittedBy (updateDevicePlugin E plugin enable) w =
     emitted E (trace w)
       ((if enable then [Dispatch (SetDevicePluginEnabled (plugin_id plugin))] else [])
          @ map (\<lambda>d. UnloadDevicePlugin d (plugin_id plugin))
              (filter (\<lambda>d. deviceSupportsPlugin d (plugin_id plugin)) (devices (store w)))
          @ previousUnloadEvents (devicePlugins (store w) (plugin_id plugin))
          @ [Dispatch (PluginLoaded plugin)]
          @ map (\<lambda>d. LoadDevicePlugin d plugin)
              (filter (\<lambda>d. deviceSupportsPlugin d (plugin_id plugin)) (devices (store w))))
   \<and> (\<forall>i j. i < j \<longrightarrow> j < length (emittedBy (updateDevicePlugin E plugin enable) w)
          \<longrightarrow> isLoadCall (emittedBy (updateDevicePlugin E plugin enable) w ! i)
          \<longrightarrow> isLoadCall (emittedBy (updateDevicePlugin E plugin enable) w ! j))
   \<and> (\<forall>i j. i < j \<longrightarrow> j < length (emittedBy (updateDevicePlugin E plugin enable) w)
          \<longrightarrow> isSwapCall (emittedBy (updateDevicePlugin E plugin enable) w ! i)
          \<longrightarrow> \<not> isUnloadCall (emittedBy (updateDevicePlugin E plugin enable) w ! j))
   \<and> ((\<exists>e\<in>set (emittedBy (updateDevicePlugin E plugin enable) w). isLoadCall e)
        \<longrightarrow> Dispatch (PluginLoaded plugin) \<in> set (emittedBy (updateDevicePlugin E plugin enable) w)
            \<and> (\<forall>d\<in>set (devices (store w)). deviceSupportsPlugin d (plugin_id plugin) \<longrightarrow>
                 UnloadDevicePlugin d (plugin_id plugin)
                   \<in> set (emittedBy (updateDevicePlugin E plugin enable) w)))
   \<and> (noThrow E \<longrightarrow>
        emittedBy (updateDevicePlugin E plugin enable) w =
          (if enable then [Dispatch (SetDevicePluginEnabled (plugin_id plugin))] else [])
            @ map (\<lambda>d. UnloadDevicePlugin d (plugin_id plugin))
                (filter (\<lambda>d. deviceSupportsPlugin d (plugin_id plugin)) (devices (store w)))
            @ previousUnloadEvents (devicePlugins (store w) (plugin_id plugin))
            @ [Dispatch (PluginLoaded plugin)]
            @ map (\<lambda>d. LoadDevicePlugin d plugin)
                (filter (\<lambda>d. deviceSupportsPlugin d (plugin_id plugin)) (devices (store w)))
        \<and> (\<forall>d\<in>set (devices (store w)). deviceSupportsPlugin d (plugin_id plugin) \<longrightarrow>
              versionsHeld (applyDeviceCalls (emittedBy (updateDevicePlugin E plugin enable) w) H)
                d (plugin_id plugin) = [plugin]))
   \<and> (\<forall>pre d. prefix pre (emittedBy (updateDevicePlugin E plugin enable) w)
          \<longrightarrow> length (versionsHeld H d (plugin_id plugin)) \<le> 1
          \<longrightarrow> length (versionsHeld (applyDeviceCalls pre H) d (plugin_id plugin)) \<le> 1)
   \<and> (\<forall>pre d. prefix pre (emittedBy (updateDevicePlugin E plugin enable) w)
          \<longrightarrow> (\<exists>e\<in>set pre. isLoadCall e)
          \<longrightarrow> d \<in> set (devices (store w)) \<longrightarrow> deviceSupportsPlugin d (plugin_id plugin)
          \<longrightarrow> set (versionsHeld (applyDeviceCalls pre H) d (plugin_id plugin)) \<subseteq> {plugin})"
proof -
  let ?new = "emittedBy (updateDevicePlugin E plugin enable) w"
  let ?pid = "plugin_id plugin"
  let ?ds = "filter (\<lambda>d. deviceSupportsPlugin d ?pid) (devices (store w))"
  let ?en = "if enable then [Dispatch (SetDevicePluginEnabled ?pid)] else []"
  let ?unl = "map (\<lambda>d. UnloadDevicePlugin d ?pid) ?ds"
  let ?swap = "previousUnloadEvents (devicePlugins (store w) ?pid) @ [Dispatch (PluginLoaded plugin)]"
  let ?pre = "?en @ ?unl @ ?swap"
  let ?post = "map (\<lambda>d. LoadDevicePlugin d plugin) ?ds"
  have new: "?new = emitted E (trace w) (?pre @ ?post)"
    by (simp add: updateDevicePlugin_emitted updateDevicePluginPlan_def Let_def)
  then have pre: "prefix ?new (?pre @ ?post)"
    by (simp only: emitted_prefix)
  have pv: "\<forall>e\<in>set (previousUnloadEvents pv). \<not> isLoadCall e \<and> \<not> isUnloadCall e" for pv
    by (cases pv) (simp_all add: previousUnloadEvents_def unloadEvents_def)
  have pre_nl: "\<forall>e\<in>set ?pre. \<not> isLoadCall e"
    using pv by auto
  have post_l: "\<forall>e\<in>set ?post. isLoadCall e"
    by simp
  have order: "\<forall>i j. i < j \<longrightarrow> j < length ?new \<longrightarrow> isLoadCall (?new ! i)
      \<longrightarrow> isLoadCall (?new ! j)"
    using prefix_ordered [OF pre pre_nl post_l] by blast
  have swap_order: "\<forall>i j. i < j \<longrightarrow> j < length ?new \<longrightarrow> isSwapCall (?new ! i)
      \<longrightarrow> \<not> isUnloadCall (?new ! j)"
  proof -
    have p: "prefix ?new ((?en @ ?unl) @ (?swap @ ?post))"
      using pre by simp
    have a: "\<forall>e\<in>set (?en @ ?unl). \<not> isSwapCall e"
      by auto
    have b: "\<forall>e\<in>set (?swap @ ?post). \<not> isUnloadCall e"
      using pv by auto
    from prefix_ordered [OF p a b] show ?thesis by blast
  qed
  have reach: "(\<exists>e\<in>set ?new. isLoadCall e)
      \<longrightarrow> Dispatch (PluginLoaded plugin) \<in> set ?new
          \<and> (\<forall>d\<in>set (devices (store w)). deviceSupportsPlugin d ?pid \<longrightarrow>
                 UnloadDevicePlugin d ?pid \<in> set ?new)"
  proof
    assume "\<exists>e\<in>set ?new. isLoadCall e"
    then obtain e where e: "e \<in> set ?new" "isLoadCall e" by blast
    with pre_nl have "e \<notin> set ?pre" by blast
    with prefix_reaches [OF pre e(1)] have sub: "set ?pre \<subseteq> set ?new" by blast
    have "Dispatch (PluginLoaded plugin) \<in> set ?pre" by simp
    moreover have "UnloadDevicePlugin d ?pid \<in> set ?pre"
      if "d \<in> set (devices (store w))" "deviceSupportsPlugin d ?pid" for d
      using that by simp
    ultimately show "Dispatch (PluginLoaded plugin) \<in> set ?new
          \<and> (\<forall>d\<in>set (devices (store w)). deviceSupportsPlugin d ?pid \<longrightarrow>
                 UnloadDevicePlugin d ?pid \<in> set ?new)"
      using sub by blast
  qed
  have unl: "UnloadDevicePlugin d ?pid \<in> set ?pre" if "d \<in> set ?ds" for d
    using that by simp
  have loads: "\<forall>e\<in>set ?post. \<exists>d'. e = LoadDevicePlugin d' plugin"
    by auto
  have unl_all: "\<forall>d p. LoadDevicePlugin d p \<in> set ?post \<longrightarrow> UnloadDevicePlugin d ?pid \<in> set ?pre"
    by auto
  have quiet: "noThrow E \<longrightarrow>
        ?new = ?en @ ?unl @ previousUnloadEvents (devicePlugins (store w) ?pid)
            @ [Dispatch (PluginLoaded plugin)] @ ?post
        \<and> (\<forall>d\<in>set (devices (store w)). deviceSupportsPlugin d ?pid \<longrightarrow>
              versionsHeld (applyDeviceCalls ?new H) d ?pid = [plugin])"
  proof (intro impI)
    assume q: "noThrow E"
    with new have all: "?new = ?pre @ ?post"
      by (simp only: emitted_noThrow)
    have "versionsHeld (applyDeviceCalls ?new H) d ?pid = [plugin]"
      if d: "d \<in> set (devices (store w))" "deviceSupportsPlugin d ?pid" for d
    proof -
      from d have ds: "d \<in> set ?ds" by simp
      then have mine: "LoadDevicePlugin d plugin \<in> set ?post" by simp
      show ?thesis
        unfolding all
        by (rule device_all_loaded [OF pre_nl unl [OF ds] loads mine])
    qed
    with all show "?new = ?en @ ?unl @ previousUnloadEvents (devicePlugins (store w) ?pid)
            @ [Dispatch (PluginLoaded plugin)] @ ?post
        \<and> (\<forall>d\<in>set (devices (store w)). deviceSupportsPlugin d ?pid \<longrightarrow>
              versionsHeld (applyDeviceCalls ?new H) d ?pid = [plugin])"
      by simp
  qed
  have one: "\<forall>p d. prefix p ?new \<longrightarrow> length (versionsHeld H d ?pid) \<le> 1
          \<longrightarrow> length (versionsHeld (applyDeviceCalls p H) d ?pid) \<le> 1"
  proof (intro allI impI)
    fix p d
    assume p: "prefix p ?new" and h: "length (versionsHeld H d ?pid) \<le> 1"
    from p pre have "prefix p (?pre @ ?post)"
      by (rule prefix_order.trans)
    from device_one_version [OF this pre_nl unl_all loads h]
    show "length (versionsHeld (applyDeviceCalls p H) d ?pid) \<le> 1" .
  qed
  have after: "\<forall>p d. prefix p ?new \<longrightarrow> (\<exists>e\<in>set p. isLoadCall e)
          \<longrightarrow> d \<in> set (devices (store w)) \<longrightarrow> deviceSupportsPlugin d ?pid
          \<longrightarrow> set (versionsHeld (applyDeviceCalls p H) d ?pid) \<subseteq> {plugin}"
  proof (intro allI impI)
    fix p d
    assume p: "prefix p ?new" and l: "\<exists>e\<in>set p. isLoadCall e"
      and d: "d \<in> set (devices (store w))" "deviceSupportsPlugin d ?pid"
    from p pre have pp: "prefix p (?pre @ ?post)"
      by (rule prefix_order.trans)
    from d have "d \<in> set ?ds" by simp
    from device_after_load [OF pp l pre_nl unl [OF this] loads]
    show "set (versionsHeld (applyDeviceCalls p H) d ?pid) \<subseteq> {plugin}" .
  qed
  from new have new': "?new = emitted E (trace w)
       (?en @ ?unl @ previousUnloadEvents (devicePlugins (store w) ?pid)
          @ [Dispatch (PluginLoaded plugin)] @ ?post)"
    by simp
  from new' order swap_order reach quiet one after show ?thesis
    by (intro conjI)
qed

theorem updateDevicePlugin_unload_swap_load_witness:
  "noThrow quietEnv
   \<and> emittedBy (updateDevicePlugin quietEnv nextDevicePlugin True) twoDeviceWorld =
       [Dispatch (SetDevicePluginEnabled ''DevicePlugin''),
        UnloadDevicePlugin testDevice ''DevicePlugin'',
        UnloadDevicePlugin secondDevice ''DevicePlugin'',
        UnloadModule ''./device/index.js'',
        Dispatch (PluginLoaded nextDevicePlugin),
        LoadDevicePlugin testDevice nextDevicePlugin,
        LoadDevicePlugin secondDevice nextDevicePlugin]
   \<and> versionsHeld twoDeviceInstances testDevice ''DevicePlugin'' = [devicePlugin]
   \<and> versionsHeld twoDeviceInstances secondDevice ''DevicePlugin'' = [devicePlugin]
   \<and> versionsHeld
         (applyDeviceCalls (emittedBy (updateDevicePlugin quietEnv nextDevicePlugin True)
                              twoDeviceWorld) twoDeviceInstances)
         testDevice ''DevicePlugin'' = [nextDevicePlugin]
   \<and> versionsHeld
         (applyDeviceCalls (emittedBy (updateDevicePlugin quietEnv nextDevicePlugin True)
                              twoDeviceWorld) twoDeviceInstances)
         secondDevice ''DevicePlugin'' = [nextDevicePlugin]
   \<and> applyDeviceCalls (emittedBy (updateDevicePlugin quietEnv nextDevicePlugin True)
                          twoDeviceWorld) twoDeviceInstances
       = [(testDevice, nextDevicePlugin), (secondDevice, nextDevicePlugin)]
   \<and> emittedBy (updateDevicePlugin startThrowsEnv nextDevicePlugin False) twoDeviceWorld =
       [UnloadDevicePlugin testDevice ''DevicePlugin'',
        UnloadDevicePlugin secondDevice ''DevicePlugin'',
        UnloadModule ''./device/index.js'',
        Dispatch (PluginLoaded nextDevicePlugin),
        LoadDevicePlugin testDevice nextDevicePlugin]
   \<and> versionsHeld
         (applyDeviceCalls (emittedBy (updateDevicePlugin startThrowsEnv nextDevicePlugin False)
                              twoDeviceWorld) twoDeviceInstances)
         testDevice ''DevicePlugin'' = [nextDevicePlugin]
   \<and> versionsHeld
         (applyDeviceCalls (emittedBy (updateDevicePlugin startThrowsEnv nextDevicePlugin False)
                              twoDeviceWorld) twoDeviceInstances)
         secondDevice ''DevicePlugin'' = []
   \<and> length (versionsHeld
         (applyDeviceCalls (emittedBy (updateDevicePlugin startThrowsEnv nextDevicePlugin False)
                              twoDeviceWorld) twoDeviceInstances)
         testDevice ''DevicePlugin'') \<le> 1
   \<and> set (versionsHeld
         (applyDeviceCalls (emittedBy (updateDevicePlugin startThrowsEnv nextDevicePlugin False)
                              twoDeviceWorld) twoDeviceInstances)
         secondDevice ''DevicePlugin'') \<subseteq> {nextDevicePlugin}
   \<and> emittedBy (updateDevicePlugin quietEnv devicePlugin True) testWorld =
       [Dispatch (SetDevicePluginEnabled ''DevicePlugin''),
        UnloadDevicePlugin testDevice ''DevicePlugin'',
        Dispatch (PluginLoaded devicePlugin),
        LoadDevicePlugin testDevice devicePlugin]"
proof -
  have ds: "filter (\<lambda>d. deviceSupportsPlugin d ''DevicePlugin'') (devices testStore) = [testDevice]"
       "filter (\<lambda>d. deviceSupportsPlugin d ''DevicePlugin'') (devices twoDeviceStore)
          = [testDevice, secondDevice]"
    by (simp_all add: deviceSupportsPlugin_def testStore_def twoDeviceStore_def testDevice_def
          secondDevice_def)
  have pid: "plugin_id devicePlugin = ''DevicePlugin''"
       "plugin_id nextDevicePlugin = ''DevicePlugin''"
    by (simp_all add: devicePlugin_def nextDevicePlugin_def)
  have prev: "previousUnloadEvents (devicePlugins testStore ''DevicePlugin'') = []"
       "previousUnloadEvents (devicePlugins twoDeviceStore ''DevicePlugin'')
          = [UnloadModule ''./device/index.js'']"
    by (simp_all add: previousUnloadEvents_def unloadEvents_def testStore_def twoDeviceStore_def
          bundledPlugin_def bundledDetails_def devicePlugin_def devicePluginDetails_def)
  have st: "store testWorld = testStore" "trace testWorld = []"
       "store twoDeviceWorld = twoDeviceStore" "trace twoDeviceWorld = []"
    by (simp_all add: testWorld_def twoDeviceWorld_def)
  have ne: "testDevice \<noteq> secondDevice" "devicePlugin \<noteq> nextDevicePlugin"
    by (simp_all add: testDevice_def secondDevice_def devicePlugin_def nextDevicePlugin_def)
  have mem: "testDevice \<in> set (devices twoDeviceStore)" "secondDevice \<in> set (devices twoDeviceStore)"
       "deviceSupportsPlugin testDevice ''DevicePlugin''"
       "deviceSupportsPlugin secondDevice ''DevicePlugin''"
    by (simp_all add: twoDeviceStore_def deviceSupportsPlugin_def testDevice_def secondDevice_def)
  note two = updateDevicePlugin_unload_swap_load
      [of quietEnv nextDevicePlugin True twoDeviceWorld twoDeviceInstances]
  note quiet = two [THEN conjunct2, THEN conjunct2, THEN conjunct2, THEN conjunct2,
      THEN conjunct1, rule_format, OF quietEnv_noThrow]
  from quiet have run: "emittedBy (updateDevicePlugin quietEnv nextDevicePlugin True)
        twoDeviceWorld =
       [Dispatch (SetDevicePluginEnabled ''DevicePlugin''),
        UnloadDevicePlugin testDevice ''DevicePlugin'',
        UnloadDevicePlugin secondDevice ''DevicePlugin'',
        UnloadModule ''./device/index.js'',
        Dispatch (PluginLoaded nextDevicePlugin),
        LoadDevicePlugin testDevice nextDevicePlugin,
        LoadDevicePlugin secondDevice nextDevicePlugin]"
    by (simp add: st ds pid prev)
  note loaded = quiet [THEN conjunct2, rule_format]
  from loaded [of testDevice] loaded [of secondDevice] mem
  have held: "versionsHeld
         (applyDeviceCalls (emittedBy (updateDevicePlugin quietEnv nextDevicePlugin True)
                              twoDeviceWorld) twoDeviceInstances)
         testDevice ''DevicePlugin'' = [nextDevicePlugin]"
       "versionsHeld
         (applyDeviceCalls (emittedBy (updateDevicePlugin quietEnv nextDevicePlugin True)
                              twoDeviceWorld) twoDeviceInstances)
         secondDevice ''DevicePlugin'' = [nextDevicePlugin]"
    by (simp_all add: st pid)
  have before: "versionsHeld twoDeviceInstances testDevice ''DevicePlugin'' = [devicePlugin]"
       "versionsHeld twoDeviceInstances secondDevice ''DevicePlugin'' = [devicePlugin]"
    using ne by (simp_all add: versionsHeld_def twoDeviceInstances_def pid)
  have final: "applyDeviceCalls (emittedBy (updateDevicePlugin quietEnv nextDevicePlugin True)
                          twoDeviceWorld) twoDeviceInstances
       = [(testDevice, nextDevicePlugin), (secondDevice, nextDevicePlugin)]"
    unfolding run using ne
    by (simp add: applyDeviceCalls_def twoDeviceInstances_def pid)
  from updateDevicePlugin_unload_swap_load
      [of startThrowsEnv nextDevicePlugin False twoDeviceWorld twoDeviceInstances,
       THEN conjunct1]
  have cut: "emittedBy (updateDevicePlugin startThrowsEnv nextDevicePlugin False) twoDeviceWorld =
       [UnloadDevicePlugin testDevice ''DevicePlugin'',
        UnloadDevicePlugin secondDevice ''DevicePlugin'',
        UnloadModule ''./device/index.js'',
        Dispatch (PluginLoaded nextDevicePlugin),
        LoadDevicePlugin testDevice nextDevicePlugin]"
    by (simp add: st ds pid prev)
  have partial: "versionsHeld
         (applyDeviceCalls (emittedBy (updateDevicePlugin startThrowsEnv nextDevicePlugin False)
                              twoDeviceWorld) twoDeviceInstances)
         testDevice ''DevicePlugin'' = [nextDevicePlugin]"
       "versionsHeld
         (applyDeviceCalls (emittedBy (updateDevicePlugin startThrowsEnv nextDevicePlugin False)
                              twoDeviceWorld) twoDeviceInstances)
         secondDevice ''DevicePlugin'' = []"
    unfolding cut using ne
    by (simp_all add: applyDeviceCalls_def twoDeviceInstances_def versionsHeld_def pid)
  have le: "length (versionsHeld twoDeviceInstances testDevice (plugin_id nextDevicePlugin)) \<le> 1"
    by (simp add: pid before)
  note one = updateDevicePlugin_unload_swap_load
      [of startThrowsEnv nextDevicePlugin False twoDeviceWorld twoDeviceInstances,
       THEN conjunct2, THEN conjunct2, THEN conjunct2, THEN conjunct2, THEN conjunct2,
       THEN conjunct1, rule_format, OF prefix_order.refl le, unfolded pid]
  have loadcall: "\<exists>e\<in>set (emittedBy (updateDevicePlugin startThrowsEnv nextDevicePlugin False)
        twoDeviceWorld). isLoadCall e"
    unfolding cut by simp
  have mem': "secondDevice \<in> set (devices (store twoDeviceWorld))"
       "deviceSupportsPlugin secondDevice (plugin_id nextDevicePlugin)"
    using mem by (simp_all add: st pid)
  note only = updateDevicePlugin_unload_swap_load
      [of startThrowsEnv nextDevicePlugin False twoDeviceWorld twoDeviceInstances,
       THEN conjunct2, THEN conjunct2, THEN conjunct2, THEN conjunct2, THEN conjunct2,
       THEN conjunct2, rule_format, OF prefix_order.refl loadcall mem', unfolded pid]
  from updateDevicePlugin_unload_swap_load
      [of quietEnv devicePlugin True testWorld twoDeviceInstances,
       THEN conjunct2, THEN conjunct2, THEN conjunct2, THEN conjunct2,
       THEN conjunct1, rule_format, OF quietEnv_noThrow]
  have bundled: "emittedBy (updateDevicePlugin quietEnv devicePlugin True) testWorld =
       [Dispatch (SetDevicePluginEnabled ''DevicePlugin''),
        UnloadDevicePlugin testDevice ''DevicePlugin'',
        Dispatch (PluginLoaded devicePlugin),
        LoadDevicePlugin testDevice devicePlugin]"
    by (simp add: st ds pid prev)
  from quietEnv_noThrow run before held final cut partial one only bundled show ?thesis
    by (intro conjI)
qed

text \<open>
  C7.  \<open>unloadPluginModule\<close> does nothing for bundled details.  Every \<open>unloadModule\<close>
  call made by \<open>uninstallPlugin\<close> is for the entry of the uninstalled plugin, whose
  details are then not bundled; every \<open>unloadModule\<close> call made by \<open>updateClientPlugin\<close>
  or \<open>updateDevicePlugin\<close> is for the entry of the previously registered version of the
  plugin, whose details are then not bundled.  This holds whichever calls throw.
\<close>

theorem bundled_module_never_unloaded:
  "(details_isBundled d \<longrightarrow> unloadPluginModule E d w = (Inr (), w))
   \<and> (UnloadModule x \<in> set (emittedBy (uninstallPlugin E plugin) w) \<longrightarrow>
        \<not> details_isBundled (plugin_details plugin)
        \<and> x = details_entry (plugin_details plugin))
   \<and> (UnloadModule x \<in> set (emittedBy (updateClientPlugin E plugin enable) w) \<longrightarrow>
        (\<exists>prev. clientPlugins (store w) (plugin_id plugin) = Some prev
           \<and> \<not> details_isBundled (plugin_details prev)
           \<and> x = details_entry (plugin_details prev)))
   \<and> (UnloadModule x \<in> set (emittedBy (updateDevicePlugin E plugin enable) w) \<longrightarrow>
        (\<exists>prev. devicePlugins (store w) (plugin_id plugin) = Some prev
           \<and> \<not> details_isBundled (plugin_details prev)
           \<and> x = details_entry (plugin_details prev)))"
proof (intro conjI impI)
  assume "details_isBundled d"
  then show "unloadPluginModule E d w = (Inr (), w)"
    by (simp add: unloadPluginModule_def ret_def)
next
  assume "UnloadModule x \<in> set (emittedBy (uninstallPlugin E plugin) w)"
  then have "UnloadModule x \<in> set (emitted E (trace w) (uninstallPluginPlan E plugin (store w)))"
    by (auto simp: uninstallPlugin_emitted uninstallFailureEvents_def split: if_splits)
  with set_emitted have "UnloadModule x \<in> set (uninstallPluginPlan E plugin (store w))"
    by blast
  then show "\<not> details_isBundled (plugin_details plugin)" "x = details_entry (plugin_details plugin)"
    using unload_in_uninstallPlan by blast+
next
  assume "UnloadModule x \<in> set (emittedBy (updateClientPlugin E plugin enable) w)"
  with set_emitted have "UnloadModule x \<in> set (updateClientPluginPlan E plugin enable (store w))"
    unfolding updateClientPlugin_emitted by blast
  then show "\<exists>prev. clientPlugins (store w) (plugin_id plugin) = Some prev
           \<and> \<not> details_isBundled (plugin_details prev)
           \<and> x = details_entry (plugin_details prev)"
    by (rule unload_in_updateClientPlan)
next
  assume "UnloadModule x \<in> set (emittedBy (updateDevicePlugin E plugin enable) w)"
  with set_emitted have "UnloadModule x \<in> set (updateDevicePluginPlan plugin enable (store w))"
    unfolding updateDevicePlugin_emitted by blast
  then show "\<exists>prev. devicePlugins (store w) (plugin_id plugin) = Some prev
           \<and> \<not> details_isBundled (plugin_details prev)
           \<and> x = details_entry (plugin_details prev)"
    by (rule unload_in_updateDevicePlan)
qed

theorem bundled_module_never_unloaded_witness:
  "details_isBundled bundledDetails
   \<and> unloadPluginModule quietEnv bundledDetails testWorld = (Inr (), testWorld)
   \<and> UnloadModule ''./test/index.js'' \<in> set (emittedBy (uninstallPlugin quietEnv testPlugin) testWorld)
   \<and> \<not> details_isBundled (plugin_details testPlugin)
   \<and> UnloadModule ''./test/index.js''
         \<in> set (emittedBy (updateClientPlugin quietEnv nextPlugin False) testWorld)
   \<and> UnloadModule ''./bundled/index.js''
         \<notin> set (emittedBy (uninstallPlugin quietEnv bundledPlugin) testWorld)
   \<and> devicePlugins (store testWorld) (plugin_id devicePlugin) = Some bundledPlugin
   \<and> UnloadModule ''./bundled/index.js''
         \<notin> set (emittedBy (updateDevicePlugin quietEnv devicePlugin True) testWorld)
   \<and> UnloadModule ''./device/index.js''
         \<in> set (emittedBy (updateDevicePlugin quietEnv devicePlugin False)
                  \<lparr>store = testStore\<lparr>devicePlugins := [''DevicePlugin'' \<mapsto> devicePlugin]\<rparr>,
                   trace = []\<rparr>)
   \<and> \<not> details_isBundled (plugin_details devicePlugin)"
proof -
  have b: "details_isBundled bundledDetails"
       "details_isBundled (plugin_details bundledPlugin)"
    by (simp_all add: bundledDetails_def bundledPlugin_def)
  have st: "store testWorld = testStore"
    by (simp add: testWorld_def)
  have pid: "plugin_id nextPlugin = ''TestPlugin''"
    by (simp add: nextPlugin_def)
  have un: "UnloadModule ''./test/index.js''
      \<in> set (emittedBy (uninstallPlugin quietEnv testPlugin) testWorld)"
    by (simp add: uninstallPlugin_emitted emitted_noThrow [OF quietEnv_noThrow]
          noThrow_completes [OF quietEnv_noThrow] uninstallPluginPlan_def unloadEvents_def
          testPlugin_def testDetails_def)
  have up: "UnloadModule ''./test/index.js''
      \<in> set (emittedBy (updateClientPlugin quietEnv nextPlugin False) testWorld)"
    by (simp add: updateClientPlugin_emitted emitted_noThrow [OF quietEnv_noThrow]
          updateClientPluginPlan_def passClients_testStore swapEvents_def st pid
          previousUnload_testStore)
  have pv: "devicePlugins (store testWorld) (plugin_id devicePlugin) = Some bundledPlugin"
    by (simp add: st testStore_def devicePlugin_def)
  let ?swapped = "\<lparr>store = testStore\<lparr>devicePlugins := [''DevicePlugin'' \<mapsto> devicePlugin]\<rparr>,
                   trace = []\<rparr>"
  have ud: "UnloadModule ''./device/index.js''
      \<in> set (emittedBy (updateDevicePlugin quietEnv devicePlugin False) ?swapped)"
    by (simp add: updateDevicePlugin_emitted emitted_noThrow [OF quietEnv_noThrow]
          updateDevicePluginPlan_def Let_def previousUnloadEvents_def unloadEvents_def
          devicePlugin_def devicePluginDetails_def)
  from ud bundled_module_never_unloaded [of bundledDetails quietEnv ?swapped
        "''./device/index.js''" devicePlugin False]
  have nb: "\<not> details_isBundled (plugin_details devicePlugin)"
    by (auto simp: devicePlugin_def)
  show ?thesis
    using b un up pv ud nb
      bundled_module_never_unloaded [of bundledDetails quietEnv testWorld
        "''./test/index.js''" testPlugin False]
      bundled_module_never_unloaded [of bundledDetails quietEnv testWorld
        "''./test/index.js''" nextPlugin False]
      bundled_module_never_unloaded [of bundledDetails quietEnv testWorld
        "''./bundled/index.js''" bundledPlugin True]
      bundled_module_never_unloaded [of bundledDetails quietEnv testWorld
        "''./bundled/index.js''" devicePlugin True]
    by auto
qed

text \<open>
  C8.  \<open>startPlugin\<close> always calls \<open>startPluginIfNeeded\<close> and then, when that call
  returns, sends \<open>init\<close> exactly when the plugin is a background plugin of the client and
  either the force flag is set or the plugin id is not in the default-enabled-background
  set.  \<open>stopPlugin\<close> sends \<open>deinit\<close> under the same condition, and sends it before
  \<open>stopPluginIfNeeded\<close>, which is called whenever \<open>deinit\<close> did not throw.
\<close>

theorem startPlugin_stopPlugin_background_signal:
  "emittedBy (startPlugin E c p force) w =
     StartPluginIfNeeded c p True
       # (if \<not> throws E (trace w) (StartPluginIfNeeded c p True)
             \<and> isBackgroundPlugin c (plugin_id p)
             \<and> (force \<or> plugin_id p \<notin> set (defaultEnabledBackgroundPlugins E))
          then [InitPlugin c (plugin_id p)] else [])
   \<and> emittedBy (stopPlugin E c pid force) w =
       (if isBackgroundPlugin c pid
           \<and> (force \<or> pid \<notin> set (defaultEnabledBackgroundPlugins E))
        then DeinitPlugin c pid
               # (if throws E (trace w) (DeinitPlugin c pid) then []
                  else [StopPluginIfNeeded c pid])
        else [StopPluginIfNeeded c pid])"
  by (auto simp: emittedBy_startPlugin emittedBy_stopPlugin backgroundSignal_def)

theorem startPlugin_stopPlugin_background_signal_witness:
  "emittedBy (startPlugin quietEnv appClient testPlugin False) testWorld =
     [StartPluginIfNeeded appClient testPlugin True, InitPlugin appClient ''TestPlugin'']
   \<and> emittedBy (stopPlugin quietEnv appClient ''TestPlugin'' False) testWorld =
       [DeinitPlugin appClient ''TestPlugin'', StopPluginIfNeeded appClient ''TestPlugin'']
   \<and> emittedBy (startPlugin quietEnv otherClient testPlugin True) testWorld =
       [StartPluginIfNeeded otherClient testPlugin True]
   \<and> emittedBy (stopPlugin quietEnv otherClient ''TestPlugin'' True) testWorld =
       [StopPluginIfNeeded otherClient ''TestPlugin'']"
  using startPlugin_stopPlugin_background_signal
          [of quietEnv appClient testPlugin False testWorld "''TestPlugin''"]
        startPlugin_stopPlugin_background_signal
          [of quietEnv otherClient testPlugin True testWorld "''TestPlugin''"]
  by (simp add: quietEnv_def isBackgroundPlugin_def appClient_def otherClient_def testPlugin_def)

text \<open>
  C9.  \<open>loadPlugin\<close> never throws.  Its \<open>try\<close> block is the resolution followed by the
  whole of \<open>updatePlugin\<close>: whatever that block throws, from whichever call or registry
  lookup, the catch logs the failure and, when \<open>notifyIfFailed\<close> is set, shows the
  \<open>Failed to load plugin\<close> notification, and \<open>loadPlugin\<close> returns normally.  In
  particular a throw inside \<open>updatePlugin\<close>, after the plugin was resolved, is a throw of
  the block.  The calls of \<open>loadPlugin\<close> are those of the block followed, unless every
  call of the block returned and no lookup threw, by those of the catch.
\<close>

theorem loadPlugin_catches_update_failures:
  "fst (loadPlugin E plugin enable notifyIfFailed w) = Inr ()
   \<and> (\<forall>x w'. andThen (call E (RequirePlugin plugin))
                 (\<lambda>_. updatePlugin E (requirePlugin E plugin) enable) w = (Inl x, w') \<longrightarrow>
         loadPlugin E plugin enable notifyIfFailed w =
           (Inr (), w'\<lparr>trace := trace w'
              @ ConsoleError (''Failed to load plugin '' @ details_title plugin
                                @ '' v'' @ details_version plugin)
              # (if notifyIfFailed
                 then [ShowErrorNotification
                         (''Failed to load plugin '' @ quoted (details_title plugin)
                            @ '' v'' @ details_version plugin)]
                 else [])\<rparr>))
   \<and> (\<forall>x w'. \<not> throws E (trace w) (RequirePlugin plugin)
         \<and> updatePlugin E (requirePlugin E plugin) enable
             (w\<lparr>trace := trace w @ [RequirePlugin plugin]\<rparr>) = (Inl x, w') \<longrightarrow>
         andThen (call E (RequirePlugin plugin))
           (\<lambda>_. updatePlugin E (requirePlugin E plugin) enable) w = (Inl x, w'))
   \<and> emittedBy (loadPlugin E plugin enable notifyIfFailed) w =
       emitted E (trace w)
         (RequirePlugin plugin # updatePluginPlan E (requirePlugin E plugin) enable (store w))
       @ (if completes E (trace w)
               (RequirePlugin plugin
                  # updatePluginPlan E (requirePlugin E plugin) enable (store w))
             \<and> updatePluginFailure E (requirePlugin E plugin) enable (store w) = None
          then []
          else ConsoleError (''Failed to load plugin '' @ details_title plugin
                               @ '' v'' @ details_version plugin)
                 # (if notifyIfFailed
                    then [ShowErrorNotification
                            (''Failed to load plugin '' @ quoted (details_title plugin)
                               @ '' v'' @ details_version plugin)]
                    else []))"
proof (intro conjI allI impI)
  show "fst (loadPlugin E plugin enable notifyIfFailed w) = Inr ()"
    by (rule loadPlugin_result)
next
  fix x w'
  assume "andThen (call E (RequirePlugin plugin))
            (\<lambda>_. updatePlugin E (requirePlugin E plugin) enable) w = (Inl x, w')"
  then have "loadPlugin E plugin enable notifyIfFailed w = loadCatch plugin notifyIfFailed w'"
    unfolding loadPlugin_def tryCatch_def loadCatch_def by simp
  then show "loadPlugin E plugin enable notifyIfFailed w =
           (Inr (), w'\<lparr>trace := trace w'
              @ ConsoleError (''Failed to load plugin '' @ details_title plugin
                                @ '' v'' @ details_version plugin)
              # (if notifyIfFailed
                 then [ShowErrorNotification
                         (''Failed to load plugin '' @ quoted (details_title plugin)
                            @ '' v'' @ details_version plugin)]
                 else [])\<rparr>)"
    unfolding loadCatch_eq loadFailureEvents_def .
next
  fix x w'
  assume "\<not> throws E (trace w) (RequirePlugin plugin)
         \<and> updatePlugin E (requirePlugin E plugin) enable
             (w\<lparr>trace := trace w @ [RequirePlugin plugin]\<rparr>) = (Inl x, w')"
  then show "andThen (call E (RequirePlugin plugin))
           (\<lambda>_. updatePlugin E (requirePlugin E plugin) enable) w = (Inl x, w')"
    by (simp add: andThen_def call_def)
next
  show "emittedBy (loadPlugin E plugin enable notifyIfFailed) w =
       emitted E (trace w)
         (RequirePlugin plugin # updatePluginPlan E (requirePlugin E plugin) enable (store w))
       @ (if completes E (trace w)
               (RequirePlugin plugin
                  # updatePluginPlan E (requirePlugin E plugin) enable (store w))
             \<and> updatePluginFailure E (requirePlugin E plugin) enable (store w) = None
          then []
          else ConsoleError (''Failed to load plugin '' @ details_title plugin
                               @ '' v'' @ details_version plugin)
                 # (if notifyIfFailed
                    then [ShowErrorNotification
                            (''Failed to load plugin '' @ quoted (details_title plugin)
                               @ '' v'' @ details_version plugin)]
                    else []))"
    unfolding loadPlugin_emitted loadPluginPlan_def loadFailureEvents_def ..
qed

theorem loadPlugin_catches_update_failures_witness:
  "\<not> throws stopThrowsEnv (trace testWorld) (RequirePlugin nextDetails)
   \<and> updatePlugin stopThrowsEnv (requirePlugin stopThrowsEnv nextDetails) False
         (testWorld\<lparr>trace := trace testWorld @ [RequirePlugin nextDetails]\<rparr>)
       = (Inl (Thrown (StopPluginIfNeeded otherClient ''TestPlugin'')),
          \<lparr>store = testStore,
           trace = [RequirePlugin nextDetails, StopPluginIfNeeded otherClient ''TestPlugin'']\<rparr>)
   \<and> loadPlugin stopThrowsEnv nextDetails False True testWorld =
       (Inr (),
        \<lparr>store = testStore,
         trace = [RequirePlugin nextDetails,
                  StopPluginIfNeeded otherClient ''TestPlugin'',
                  ConsoleError ''Failed to load plugin Testplugin v0.2.0'',
                  ShowErrorNotification
                    (''Failed to load plugin '' @ quoted ''Testplugin'' @ '' v0.2.0'')]\<rparr>)
   \<and> andThen (call quietEnv (RequirePlugin nextDetails))
         (\<lambda>_. updatePlugin quietEnv (requirePlugin quietEnv nextDetails) True) ctorWorld
       = (Inl TypeError,
          \<lparr>store = reducer (SetPluginEnabled ''TestPlugin'' ''TestApp'') ctorStore,
           trace = [RequirePlugin nextDetails,
                    Dispatch (SetPluginEnabled ''TestPlugin'' ''TestApp'')]\<rparr>)
   \<and> loadPlugin quietEnv nextDetails True True ctorWorld =
       (Inr (),
        \<lparr>store = reducer (SetPluginEnabled ''TestPlugin'' ''TestApp'') ctorStore,
         trace = [RequirePlugin nextDetails,
                  Dispatch (SetPluginEnabled ''TestPlugin'' ''TestApp''),
                  ConsoleError ''Failed to load plugin Testplugin v0.2.0'',
                  ShowErrorNotification
                    (''Failed to load plugin '' @ quoted ''Testplugin'' @ '' v0.2.0'')]\<rparr>)"
proof -
  have nt: "\<not> throws stopThrowsEnv (trace testWorld) (RequirePlugin nextDetails)"
    by (simp add: stopThrowsEnv_def)
  have rp: "requirePlugin stopThrowsEnv nextDetails = nextPlugin"
    by (simp add: stopThrowsEnv_def)
  note cs = passClients_testStore [of stopThrowsEnv]
  have bg: "\<not> backgroundSignal stopThrowsEnv otherClient ''TestPlugin'' b" for b
    by (simp add: backgroundSignal_def isBackgroundPlugin_def otherClient_def)
  have thr: "throws stopThrowsEnv tr (StopPluginIfNeeded c p)" for tr c p
    by (simp add: stopThrowsEnv_def)
  have pid: "plugin_id nextPlugin = ''TestPlugin''" "\<not> plugin_isDevicePlugin nextPlugin"
    by (simp_all add: nextPlugin_def)
  have plan: "updatePluginPlan stopThrowsEnv nextPlugin False testStore =
      StopPluginIfNeeded otherClient ''TestPlugin''
        # StartPluginIfNeeded otherClient nextPlugin True
        # Dispatch (PluginLoaded nextPlugin)
        # previousUnloadEvents (clientPlugins testStore ''TestPlugin'')"
    using pid by (simp add: updatePluginPlan_def updateClientPluginPlan_def cs bg enableEvents_def
          swapEvents_def enableTarget_def stopEvents_def startEvents_def)
  have up: "updatePlugin stopThrowsEnv (requirePlugin stopThrowsEnv nextDetails) False
         (testWorld\<lparr>trace := trace testWorld @ [RequirePlugin nextDetails]\<rparr>)
       = (Inl (Thrown (StopPluginIfNeeded otherClient ''TestPlugin'')),
          \<lparr>store = testStore,
           trace = [RequirePlugin nextDetails, StopPluginIfNeeded otherClient ''TestPlugin'']\<rparr>)"
    by (simp add: rp updatePlugin_exec testWorld_def plan execThen_Cons andThen_def call_def thr)
  have msg: "details_title nextDetails = ''Testplugin''" "details_version nextDetails = ''0.2.0''"
    by (simp_all add: nextDetails_def)
  have first: "loadPlugin stopThrowsEnv nextDetails False True testWorld =
       (Inr (),
        \<lparr>store = testStore,
         trace = [RequirePlugin nextDetails,
                  StopPluginIfNeeded otherClient ''TestPlugin'',
                  ConsoleError ''Failed to load plugin Testplugin v0.2.0'',
                  ShowErrorNotification
                    (''Failed to load plugin '' @ quoted ''Testplugin'' @ '' v0.2.0'')]\<rparr>)"
    using nt up loadPlugin_catches_update_failures [of stopThrowsEnv nextDetails False True testWorld]
    by (simp add: msg)
  have rq: "requirePlugin quietEnv nextDetails = nextPlugin"
    by (simp add: quietEnv_def)
  have planq: "updatePluginPlan quietEnv nextPlugin True ctorStore =
        [Dispatch (SetPluginEnabled ''TestPlugin'' ''TestApp'')]"
      "updatePluginFailure quietEnv nextPlugin True ctorStore = Some TypeError"
    using pid
    by (simp_all add: updatePluginPlan_def updatePluginFailure_def updateClientPluginPlan_def
          updateClientPluginFailure_def passClients_enable_ctorStore enableEvents_testStore
          env_deconstruct)
  have block: "andThen (call quietEnv (RequirePlugin nextDetails))
         (\<lambda>_. updatePlugin quietEnv (requirePlugin quietEnv nextDetails) True) ctorWorld
       = (Inl TypeError,
          \<lparr>store = reducer (SetPluginEnabled ''TestPlugin'' ''TestApp'') ctorStore,
           trace = [RequirePlugin nextDetails,
                    Dispatch (SetPluginEnabled ''TestPlugin'' ''TestApp'')]\<rparr>)"
    unfolding rq
    by (simp add: updatePlugin_exec ctorWorld_def planq execThen_Cons execThen_Nil_Some
          andThen_def call_def dispatch_def throw_def del: reducer.simps)
  from loadPlugin_catches_update_failures [of quietEnv nextDetails True True ctorWorld,
      THEN conjunct2, THEN conjunct1, rule_format, OF block]
  have second: "loadPlugin quietEnv nextDetails True True ctorWorld =
       (Inr (),
        \<lparr>store = reducer (SetPluginEnabled ''TestPlugin'' ''TestApp'') ctorStore,
         trace = [RequirePlugin nextDetails,
                  Dispatch (SetPluginEnabled ''TestPlugin'' ''TestApp''),
                  ConsoleError ''Failed to load plugin Testplugin v0.2.0'',
                  ShowErrorNotification
                    (''Failed to load plugin '' @ quoted ''Testplugin'' @ '' v0.2.0'')]\<rparr>)"
    by (simp add: msg del: reducer.simps)
  from nt up first block second show ?thesis
    by (intro conjI)
qed

text \<open>
  C10.  With the enable flag set and an app selected, \<open>updateClientPlugin\<close> dispatches
  \<open>setPluginEnabled\<close> first and runs the filter on the store after it.  The filter reads
  the registry for every connected client that supports the plugin, and the lookup
  throws for a client whose app has the name of an inherited property and no entry.
  In the store \<open>ctorStore\<close> the client of the selected app \<open>TestApp\<close> supports the
  plugin, and a client of an app called \<open>constructor\<close> is connected and supports it too:
  \<open>updateClientPlugin\<close> dispatches \<open>setPluginEnabled\<close> and throws a \<open>TypeError\<close>, and
  the client of \<open>TestApp\<close> is neither stopped nor started in that invocation.
\<close>

theorem updateClientPlugin_enable_then_filter_throws:
  "getSelectedAppName quietEnv (store ctorWorld) = Some ''TestApp''
   \<and> clients (store ctorWorld) = [appClient, ctorClient]
   \<and> query_app appClient = ''TestApp''
   \<and> supportsPlugin appClient (plugin_id nextPlugin)
   \<and> query_app ctorClient = ''constructor''
   \<and> supportsPlugin ctorClient (plugin_id nextPlugin)
   \<and> enabledPlugins (store ctorWorld) ''constructor'' = None
   \<and> noThrow quietEnv
   \<and> updateClientPlugin quietEnv nextPlugin True ctorWorld =
       (Inl TypeError,
        \<lparr>store = reducer (SetPluginEnabled ''TestPlugin'' ''TestApp'') ctorStore,
         trace = [Dispatch (SetPluginEnabled ''TestPlugin'' ''TestApp'')]\<rparr>)
   \<and> StopPluginIfNeeded appClient ''TestPlugin''
         \<notin> set (emittedBy (updateClientPlugin quietEnv nextPlugin True) ctorWorld)
   \<and> StartPluginIfNeeded appClient nextPlugin True
         \<notin> set (emittedBy (updateClientPlugin quietEnv nextPlugin True) ctorWorld)"
proof -
  have st: "store ctorWorld = ctorStore"
    by (simp add: ctorWorld_def)
  have sel: "getSelectedAppName quietEnv (store ctorWorld) = Some ''TestApp''"
    unfolding st by (simp add: selected_testStore env_deconstruct)
  have cl: "clients (store ctorWorld) = [appClient, ctorClient]"
    by (simp add: st ctorStore_def)
  have ap: "query_app appClient = ''TestApp''" "supportsPlugin appClient (plugin_id nextPlugin)"
       "query_app ctorClient = ''constructor''" "supportsPlugin ctorClient (plugin_id nextPlugin)"
    by (simp_all add: appClient_def ctorClient_def supportsPlugin_def nextPlugin_def)
  have reg: "enabledPlugins (store ctorWorld) ''constructor'' = None"
    by (simp add: st ctorStore_def testStore_def)
  have plan: "updateClientPluginPlan quietEnv nextPlugin True ctorStore =
        [Dispatch (SetPluginEnabled ''TestPlugin'' ''TestApp'')]"
      "updateClientPluginFailure quietEnv nextPlugin True ctorStore = Some TypeError"
    by (simp_all add: updateClientPluginPlan_def updateClientPluginFailure_def
          passClients_enable_ctorStore enableEvents_testStore env_deconstruct)
  have run: "updateClientPlugin quietEnv nextPlugin True ctorWorld =
       (Inl TypeError,
        \<lparr>store = reducer (SetPluginEnabled ''TestPlugin'' ''TestApp'') ctorStore,
         trace = [Dispatch (SetPluginEnabled ''TestPlugin'' ''TestApp'')]\<rparr>)"
    by (simp add: updateClientPlugin_exec ctorWorld_def plan execThen_Cons execThen_Nil_Some
          andThen_def dispatch_def throw_def del: reducer.simps)
  have new: "emittedBy (updateClientPlugin quietEnv nextPlugin True) ctorWorld =
      [Dispatch (SetPluginEnabled ''TestPlugin'' ''TestApp'')]"
    unfolding emittedBy_def run by (simp add: ctorWorld_def)
  have none: "StopPluginIfNeeded appClient ''TestPlugin''
         \<notin> set (emittedBy (updateClientPlugin quietEnv nextPlugin True) ctorWorld)"
       "StartPluginIfNeeded appClient nextPlugin True
         \<notin> set (emittedBy (updateClientPlugin quietEnv nextPlugin True) ctorWorld)"
    unfolding new by simp_all
  from sel cl ap reg quietEnv_noThrow run none show ?thesis
    by (intro conjI)
qed

end
